theory Spec2Isabelle
  imports Main "HOL-Library.Word" "HOL-Library.Log_Nat" "HOL-Library.Product_Lexorder"
begin

section \<open>Data model\<close>

text \<open>
  The track list of a board is an intrusive doubly linked list of \<open>TRACK\<close> objects
  (\<open>m_Board->m_Track\<close>). Objects are identified by their address; the model keeps the
  addresses in list order and the fields of every object in a store, so that a pointer held
  elsewhere (an index entry, a connectivity list) can be followed whether or not the
  object is still linked.
\<close>

type_synonym wxPoint = "int \<times> int"

type_synonym track_ptr = nat

datatype KICAD_T = PCB_TRACE_T | PCB_VIA_T | PCB_TEARDROP_T | PCB_ROUNDEDTRACKSCORNER_T

datatype VIATYPE_T = VIA_THROUGH | VIA_BLIND_BURIED | VIA_MICROVIA

record D_PAD =
  pad_NetCode :: nat
  pad_Pos :: wxPoint
  pad_LayerSet :: "nat set"

record TRACK =
  m_Type :: KICAD_T
  m_Start :: wxPoint
  m_End :: wxPoint
  m_Width :: int
  m_Layer :: nat
  m_LayerSet :: "nat set"
  m_NetCode :: nat
  m_Param :: nat
  m_ViaType :: VIATYPE_T
  m_ThermalCode :: int
  m_ThermalZones :: nat
  FLAG0 :: bool
  START_ON_PAD :: bool
  END_ON_PAD :: bool
  BUSY :: bool
  m_PadsConnected :: "D_PAD list"
  m_TracksConnected :: "track_ptr list"

record BOARD =
  m_Track :: "track_ptr list"
  heap :: "track_ptr \<Rightarrow> TRACK"
  m_netcode_first_trackitems :: "track_ptr option list"

definition GetNetCode :: "BOARD \<Rightarrow> track_ptr \<Rightarrow> nat" where
  "GetNetCode b a = m_NetCode (heap b a)"

definition IsOnLayer :: "TRACK \<Rightarrow> nat \<Rightarrow> bool" where
  "IsOnLayer t l = (l \<in> m_LayerSet t)"

section \<open>Geometric predicates\<close>

text \<open>
  \<open>parallelism_test\<close> takes four C \<open>int\<close>s. Its last line multiplies in \<open>double\<close>:
  each operand converts exactly, the product of two 32-bit integers is an integer below
  \<open>2 ^ 62\<close> in magnitude, and the multiplication returns that integer rounded to 53
  significant bits, ties to even. \<open>round_double\<close> is this rounding on integers.
\<close>

definition round_double :: "int \<Rightarrow> int" where
  "round_double n =
     (let m = \<bar>n\<bar>; e = nat (bitlen m - 53); q = m div 2 ^ e; r = m mod 2 ^ e;
          q' = (if 2 * r > 2 ^ e \<or> (2 * r = 2 ^ e \<and> odd q) then q + 1 else q)
      in sgn n * (q' * 2 ^ e))"

definition parallelism_test :: "32 word \<Rightarrow> 32 word \<Rightarrow> 32 word \<Rightarrow> 32 word \<Rightarrow> bool" where
  "parallelism_test dx1 dy1 dx2 dy2 =
     (if dx1 = 0 then dx2 = 0
      else if dx2 = 0 then dx1 = 0
      else if dy1 = 0 then dy2 = 0
      else if dy2 = 0 then dy1 = 0
      else round_double (sint dy1 * sint dx2) = round_double (sint dx1 * sint dy2))"

section \<open>Net scans\<close>

text \<open>
  Modelled from the spec: \<open>NET_SCAN_BASE::Execute\<close> is not part of the file. A scan
  begins at the start item and walks forward through the track list, invoking the visit
  predicate on every item whose netcode equals the start item's, and stops when the
  predicate signals "found" or an item of another net is reached. \<open>items_from\<close> is the
  start item followed by its successors in the list.
\<close>

fun items_from :: "track_ptr list \<Rightarrow> track_ptr \<Rightarrow> track_ptr list" where
  "items_from [] a = [a]"
| "items_from (x # xs) a = (if x = a then x # xs else items_from xs a)"

fun net_scan :: "(track_ptr \<Rightarrow> bool) \<Rightarrow> (track_ptr \<Rightarrow> nat) \<Rightarrow> nat \<Rightarrow> track_ptr list \<Rightarrow> track_ptr option" where
  "net_scan ExecuteAt net n [] = None"
| "net_scan ExecuteAt net n (a # as) =
     (if net a \<noteq> n then None
      else if ExecuteAt a then Some a
      else net_scan ExecuteAt net n as)"

definition NET_SCAN_GET_VIA_ExecuteAt :: "BOARD \<Rightarrow> track_ptr \<Rightarrow> wxPoint \<Rightarrow> track_ptr \<Rightarrow> bool" where
  "NET_SCAN_GET_VIA_ExecuteAt b scan_start_track pos aTrack =
     (m_Type (heap b aTrack) = PCB_VIA_T
      \<and> IsOnLayer (heap b aTrack) (m_Layer (heap b scan_start_track))
      \<and> m_Start (heap b aTrack) = pos)"

definition NET_SCAN_GET_VIA_Execute :: "BOARD \<Rightarrow> track_ptr \<Rightarrow> wxPoint \<Rightarrow> track_ptr option" where
  "NET_SCAN_GET_VIA_Execute b aStartTrack pos =
     net_scan (NET_SCAN_GET_VIA_ExecuteAt b aStartTrack pos) (GetNetCode b)
       (GetNetCode b aStartTrack) (items_from (m_Track b) aStartTrack)"

text \<open>\<open>TRACKITEMS::GetVia\<close>; a null \<open>aTrackSegAt\<close> is \<open>None\<close>, and so is a null result.\<close>

definition GetVia :: "BOARD \<Rightarrow> track_ptr option \<Rightarrow> wxPoint \<Rightarrow> track_ptr option" where
  "GetVia b aTrackSegAt aPosAt =
     (case aTrackSegAt of
        None \<Rightarrow> None
      | Some t \<Rightarrow>
          if m_Start (heap b t) = aPosAt \<or> m_End (heap b t) = aPosAt
          then NET_SCAN_GET_VIA_Execute b t aPosAt
          else None)"

section \<open>The track list\<close>

text \<open>
  Modelled from the spec: \<open>DLIST\<close> is not part of the file. The list supports forward
  and backward neighbour queries, removal of an item, appending, and splicing a new item
  immediately before a given one. An item that is not linked has no neighbours.
\<close>

fun first_index :: "track_ptr list \<Rightarrow> track_ptr \<Rightarrow> nat option" where
  "first_index [] a = None"
| "first_index (x # xs) a = (if x = a then Some 0 else map_option Suc (first_index xs a))"

definition Back :: "BOARD \<Rightarrow> track_ptr \<Rightarrow> track_ptr option" where
  "Back b a =
     (case first_index (m_Track b) a of
        None \<Rightarrow> None
      | Some 0 \<Rightarrow> None
      | Some (Suc i) \<Rightarrow> Some (m_Track b ! i))"

definition Next :: "BOARD \<Rightarrow> track_ptr \<Rightarrow> track_ptr option" where
  "Next b a =
     (case first_index (m_Track b) a of
        None \<Rightarrow> None
      | Some i \<Rightarrow> if Suc i < length (m_Track b) then Some (m_Track b ! Suc i) else None)"

definition GetFirstItem :: "BOARD \<Rightarrow> track_ptr option" where
  "GetFirstItem b = (case m_Track b of [] \<Rightarrow> None | x # xs \<Rightarrow> Some x)"

definition GetLast :: "BOARD \<Rightarrow> track_ptr option" where
  "GetLast b = (if m_Track b = [] then None else Some (last (m_Track b)))"

definition PushBack :: "BOARD \<Rightarrow> track_ptr \<Rightarrow> BOARD" where
  "PushBack b a = b\<lparr>m_Track := m_Track b @ [a]\<rparr>"

definition Remove_item :: "BOARD \<Rightarrow> track_ptr \<Rightarrow> BOARD" where
  "Remove_item b a = b\<lparr>m_Track := remove1 a (m_Track b)\<rparr>"

fun insert_before :: "track_ptr list \<Rightarrow> track_ptr \<Rightarrow> track_ptr \<Rightarrow> track_ptr list" where
  "insert_before [] new p = [new]"
| "insert_before (x # xs) new p = (if x = p then new # x # xs else x # insert_before xs new p)"

fun insert_after :: "track_ptr list \<Rightarrow> track_ptr \<Rightarrow> track_ptr \<Rightarrow> track_ptr list" where
  "insert_after [] new p = [new]"
| "insert_after (x # xs) new p = (if x = p then x # new # xs else x # insert_after xs new p)"

section \<open>The index of first items per netcode\<close>

text \<open>
  \<open>NETCODE_FIRST_TRACKITEM\<close> keeps a vector of item pointers indexed by netcode. The
  functions that update it return the board with the new vector. Netcodes are not
  negative, so the comparisons of an \<open>int\<close> netcode with the vector's size are
  comparisons of naturals.
\<close>

function sync_walk :: "BOARD \<Rightarrow> nat \<Rightarrow> track_ptr \<Rightarrow> track_ptr option" where
  "sync_walk b aNetCode item =
     (case Back b item of
        Some back_item \<Rightarrow>
          if GetNetCode b back_item < aNetCode then Some item
          else sync_walk b aNetCode back_item
      | None \<Rightarrow> if GetNetCode b item = aNetCode then Some item else None)"
  by pat_completeness auto

lemma first_index_SomeD: "first_index xs a = Some i \<Longrightarrow> i < length xs \<and> xs ! i = a"
  by (induction xs arbitrary: i) (auto split: if_splits)

lemma first_index_nth_le: "i < length xs \<Longrightarrow> \<exists>j\<le>i. first_index xs (xs ! i) = Some j"
proof (induction xs arbitrary: i)
  case Nil
  then show ?case by simp
next
  case (Cons x xs)
  show ?case
  proof (cases i)
    case 0
    then show ?thesis by simp
  next
    case (Suc k)
    with Cons.prems have "k < length xs" by simp
    from Cons.IH [OF this] obtain j where "j \<le> k" "first_index xs (xs ! k) = Some j" by blast
    with Suc show ?thesis by auto
  qed
qed

lemma Back_decreases:
  assumes "Back b item = Some back_item"
  shows "(case first_index (m_Track b) back_item of None \<Rightarrow> 0 | Some i \<Rightarrow> i)
         < (case first_index (m_Track b) item of None \<Rightarrow> 0 | Some i \<Rightarrow> i)"
proof -
  from assms obtain i where i: "first_index (m_Track b) item = Some (Suc i)"
    and bk: "back_item = m_Track b ! i"
    by (auto simp: Back_def split: option.splits nat.splits)
  from first_index_SomeD [OF i] have "i < length (m_Track b)" by simp
  from first_index_nth_le [OF this] obtain j where "j \<le> i"
    "first_index (m_Track b) (m_Track b ! i) = Some j" by blast
  with i bk show ?thesis by simp
qed

termination sync_walk
  by (relation "measure (\<lambda>(b, n, item). case first_index (m_Track b) item of None \<Rightarrow> 0 | Some i \<Rightarrow> i)")
     (auto dest: Back_decreases)

declare sync_walk.simps [simp del]

definition GetAndSync :: "BOARD \<Rightarrow> nat \<Rightarrow> track_ptr option \<times> BOARD" where
  "GetAndSync b aNetCode =
     (if aNetCode < length (m_netcode_first_trackitems b) then
        (case m_netcode_first_trackitems b ! aNetCode of
           None \<Rightarrow> (None, b)
         | Some item \<Rightarrow>
             (case sync_walk b aNetCode item of
                Some found \<Rightarrow>
                  (Some found,
                   b\<lparr>m_netcode_first_trackitems :=
                       (m_netcode_first_trackitems b)[aNetCode := Some found]\<rparr>)
              | None \<Rightarrow> (None, b)))
      else (None, b))"

definition GetFirst :: "BOARD \<Rightarrow> nat \<Rightarrow> track_ptr option \<times> BOARD" where
  "GetFirst b aNetCode = GetAndSync b aNetCode"

lemma GetAndSync_length:
  "length (m_netcode_first_trackitems (snd (GetAndSync b n))) = length (m_netcode_first_trackitems b)"
  by (simp add: GetAndSync_def split: option.splits)

text \<open>
  The inner loop of \<open>GetBestInsertPoint\<close>: from \<open>netcode\<close> upwards, the first index
  entry that resolves to an item with a predecessor yields that predecessor.
\<close>

function next_net_scan :: "BOARD \<Rightarrow> nat \<Rightarrow> track_ptr option \<times> BOARD" where
  "next_net_scan b netcode =
     (if netcode < length (m_netcode_first_trackitems b) then
        (case fst (GetAndSync b netcode) of
           Some item \<Rightarrow>
             (case Back (snd (GetAndSync b netcode)) item of
                Some back_item \<Rightarrow> (Some back_item, snd (GetAndSync b netcode))
              | None \<Rightarrow> next_net_scan (snd (GetAndSync b netcode)) (Suc netcode))
         | None \<Rightarrow> next_net_scan (snd (GetAndSync b netcode)) (Suc netcode))
      else (None, b))"
  by pat_completeness auto
termination
  by (relation "measure (\<lambda>(b, k). length (m_netcode_first_trackitems b) - k)")
     (auto simp: GetAndSync_length)

declare next_net_scan.simps [simp del]

definition GetBestInsertPoint :: "BOARD \<Rightarrow> nat \<Rightarrow> track_ptr option \<times> BOARD" where
  "GetBestInsertPoint b aNetCode =
     (let (ret_item, b1) =
        (case GetFirstItem b of
           None \<Rightarrow> (None, b)
         | Some head \<Rightarrow>
             if aNetCode \<noteq> 0 \<and> aNetCode \<ge> GetNetCode b head then
               (let (ret1, b1) =
                      (if length (m_netcode_first_trackitems b) > aNetCode
                       then GetAndSync b aNetCode else (None, b))
                in case ret1 of
                     Some r \<Rightarrow> (Some r, b1)
                   | None \<Rightarrow>
                       (case next_net_scan b1 (aNetCode + 1) of
                          (Some r, b2) \<Rightarrow> (Some r, b2)
                        | (None, b2) \<Rightarrow> (GetLast b2, b2)))
             else (None, b))
      in case ret_item of
           Some r \<Rightarrow> (Some r, b1)
         | None \<Rightarrow> (GetFirstItem b1, b1))"

text \<open>\<open>Insert\<close> and \<open>Remove\<close> of the index; a null argument is \<open>None\<close>.\<close>

definition Insert :: "BOARD \<Rightarrow> track_ptr option \<Rightarrow> BOARD" where
  "Insert b aTrackItem =
     (case aTrackItem of
        None \<Rightarrow> b
      | Some trackitem \<Rightarrow>
          (let netcode = GetNetCode b trackitem;
               v = m_netcode_first_trackitems b;
               v1 = (if netcode \<ge> length v then v @ replicate (netcode + 1 - length v) None else v)
           in case Back b trackitem of
                Some trackitem_prev \<Rightarrow>
                  if GetNetCode b trackitem_prev < netcode
                  then b\<lparr>m_netcode_first_trackitems := v1[netcode := Some trackitem]\<rparr>
                  else b\<lparr>m_netcode_first_trackitems := v1\<rparr>
              | None \<Rightarrow> b\<lparr>m_netcode_first_trackitems := v1[netcode := Some trackitem]\<rparr>))"

definition Remove :: "BOARD \<Rightarrow> track_ptr option \<Rightarrow> BOARD" where
  "Remove b aTrackItem =
     (case aTrackItem of
        None \<Rightarrow> b
      | Some trackitem \<Rightarrow>
          (let netcode = GetNetCode b trackitem; v = m_netcode_first_trackitems b
           in if netcode < length v \<and> v ! netcode = Some trackitem then
                (case Back b trackitem of
                   Some p \<Rightarrow>
                     if GetNetCode b p = netcode
                     then b\<lparr>m_netcode_first_trackitems := v[netcode := Some p]\<rparr>
                     else (case Next b trackitem of
                             Some s \<Rightarrow>
                               if GetNetCode b s = netcode
                               then b\<lparr>m_netcode_first_trackitems := v[netcode := Some s]\<rparr>
                               else b\<lparr>m_netcode_first_trackitems := v[netcode := None]\<rparr>
                           | None \<Rightarrow> b\<lparr>m_netcode_first_trackitems := v[netcode := None]\<rparr>)
                 | None \<Rightarrow>
                     (case Next b trackitem of
                        Some s \<Rightarrow>
                          if GetNetCode b s = netcode
                          then b\<lparr>m_netcode_first_trackitems := v[netcode := Some s]\<rparr>
                          else b\<lparr>m_netcode_first_trackitems := v[netcode := None]\<rparr>
                      | None \<Rightarrow> b\<lparr>m_netcode_first_trackitems := v[netcode := None]\<rparr>))
              else b))"

section \<open>Sorting the track list by netcode\<close>

text \<open>
  \<open>SortTracks\<close> numbers the items in list order (\<open>m_Param\<close>), moves them to a vector,
  sorts the vector with \<open>std::sort\<close> under the comparison "smaller netcode, or equal
  netcode and smaller \<open>m_Param\<close>", and appends them again, registering each in the index
  as it is appended. The comparison is the lexicographic order on the pair
  \<open>(netcode, m_Param)\<close>; \<open>std::sort\<close> is rendered by a sort on this key.
\<close>

fun number_items :: "(track_ptr \<Rightarrow> TRACK) \<Rightarrow> track_ptr list \<Rightarrow> nat \<Rightarrow> (track_ptr \<Rightarrow> TRACK)" where
  "number_items h [] n = h"
| "number_items h (t # ts) n = number_items (h(t := (h t)\<lparr>m_Param := n\<rparr>)) ts (Suc n)"

definition rule_key :: "(track_ptr \<Rightarrow> TRACK) \<Rightarrow> track_ptr \<Rightarrow> nat \<times> nat" where
  "rule_key h a = (m_NetCode (h a), m_Param (h a))"

fun push_all :: "BOARD \<Rightarrow> track_ptr list \<Rightarrow> BOARD" where
  "push_all b [] = b"
| "push_all b (t # ts) = push_all (Insert (PushBack b t) (Some t)) ts"

definition SortTracks :: "BOARD \<Rightarrow> BOARD" where
  "SortTracks b =
     (if m_Track b = [] then b
      else
        (let h = number_items (heap b) (m_Track b) 0;
             tracks = sort_key (rule_key h) (m_Track b)
         in push_all (b\<lparr>m_Track := [], heap := h\<rparr>) tracks))"

section \<open>The track cleaner\<close>

text \<open>
  The loops of \<open>TRACKS_CLEANER\<close> walk the track list through \<open>Next()\<close> while they
  unlink items. The model walks the items that were behind the current one when the loop
  started; where an earlier step of the same loop may have unlinked one of them, the item is
  skipped, as the walk through \<open>Next()\<close> would not reach it.

  Modelled from the spec: \<open>BOARD::Remove\<close> is not part of the file; it unlinks the item
  from the track list (\<open>Remove_item\<close>). \<open>TEARDROPS::Remove\<close> and
  \<open>ROUNDED_TRACKS_CORNERS::Remove\<close>, which unlink the teardrops and rounded corners
  attached to an item, and the commit log are not part of the file either; the model
  covers boards on which no teardrop or rounded corner is attached to a removed item, where
  those calls change nothing.
\<close>

subsection \<open>Short-circuit removal\<close>

text \<open>
  Items exempt from flagging: teardrops, rounded corners, and thermal vias with a net.
\<close>

definition exempt :: "TRACK \<Rightarrow> bool" where
  "exempt t =
     (m_Type t = PCB_TEARDROP_T \<or> m_Type t = PCB_ROUNDEDTRACKSCORNER_T
      \<or> (m_Type t = PCB_VIA_T \<and> m_ThermalCode t \<noteq> 0 \<and> m_NetCode t \<noteq> 0))"

fun pads_loop :: "(track_ptr \<Rightarrow> TRACK) \<Rightarrow> track_ptr \<Rightarrow> D_PAD list \<Rightarrow> (track_ptr \<Rightarrow> TRACK)" where
  "pads_loop h segment [] = h"
| "pads_loop h segment (pad # pads) =
     pads_loop
       (if m_NetCode (h segment) \<noteq> pad_NetCode pad
        then h(segment := (h segment)\<lparr>FLAG0 := True\<rparr>) else h)
       segment pads"

fun tracks_loop :: "(track_ptr \<Rightarrow> TRACK) \<Rightarrow> track_ptr \<Rightarrow> track_ptr list \<Rightarrow> (track_ptr \<Rightarrow> TRACK)" where
  "tracks_loop h segment [] = h"
| "tracks_loop h segment (tested # rest) =
     tracks_loop
       (if m_NetCode (h segment) \<noteq> m_NetCode (h tested) \<and> \<not> FLAG0 (h tested)
        then h(segment := (h segment)\<lparr>FLAG0 := True\<rparr>) else h)
       segment rest"

definition flag_segment :: "(track_ptr \<Rightarrow> TRACK) \<Rightarrow> track_ptr \<Rightarrow> (track_ptr \<Rightarrow> TRACK)" where
  "flag_segment h segment =
     (let h1 = h(segment := (h segment)\<lparr>FLAG0 := False\<rparr>)
      in if exempt (h1 segment) then h1
         else tracks_loop (pads_loop h1 segment (m_PadsConnected (h1 segment)))
                segment (m_TracksConnected (h1 segment)))"

fun flag_sweep :: "(track_ptr \<Rightarrow> TRACK) \<Rightarrow> track_ptr list \<Rightarrow> (track_ptr \<Rightarrow> TRACK)" where
  "flag_sweep h [] = h"
| "flag_sweep h (segment # rest) = flag_sweep (flag_segment h segment) rest"

fun remove_flagged :: "BOARD \<Rightarrow> track_ptr list \<Rightarrow> bool \<Rightarrow> BOARD \<times> bool" where
  "remove_flagged b [] isModified = (b, isModified)"
| "remove_flagged b (segment # rest) isModified =
     (if FLAG0 (heap b segment) then remove_flagged (Remove_item b segment) rest True
      else remove_flagged b rest isModified)"

fun clear_TracksConnected :: "(track_ptr \<Rightarrow> TRACK) \<Rightarrow> track_ptr list \<Rightarrow> (track_ptr \<Rightarrow> TRACK)" where
  "clear_TracksConnected h [] = h"
| "clear_TracksConnected h (segment # rest) =
     clear_TracksConnected (h(segment := (h segment)\<lparr>m_TracksConnected := []\<rparr>)) rest"

text \<open>
  \<open>removeBadTrackSegments\<close> first rebuilds the connectivity lists of every item
  (\<open>m_PadsConnected\<close>, \<open>m_TracksConnected\<close>) with functions of \<open>CONNECTIONS\<close> that are
  not part of the file; \<open>connect\<close> stands for that step.
\<close>

definition removeBadTrackSegments :: "(BOARD \<Rightarrow> BOARD) \<Rightarrow> BOARD \<Rightarrow> bool \<times> BOARD" where
  "removeBadTrackSegments connect b =
     (let b0 = connect b;
          b1 = b0\<lparr>heap := flag_sweep (heap b0) (m_Track b0)\<rparr>;
          (b2, isModified) = remove_flagged b1 (m_Track b1) False
      in if isModified
         then (True, b2\<lparr>heap := clear_TracksConnected (heap b2) (m_Track b2)\<rparr>)
         else (False, b2))"

subsection \<open>Redundant vias\<close>

text \<open>
  \<open>GetFirstVia\<close> is not part of the file: it yields the first via at or behind the
  given item, so a loop over \<open>GetFirstVia\<close> passes over the items that are not vias.
\<close>

fun items_behind :: "track_ptr list \<Rightarrow> track_ptr \<Rightarrow> track_ptr list" where
  "items_behind [] a = []"
| "items_behind (x # xs) a = (if x = a then xs else items_behind xs a)"

fun duplicates_loop :: "BOARD \<Rightarrow> track_ptr \<Rightarrow> track_ptr list \<Rightarrow> bool \<Rightarrow> bool \<times> BOARD" where
  "duplicates_loop b aVia [] modified = (modified, b)"
| "duplicates_loop b aVia (alt_via # rest) modified =
     (if m_Type (heap b alt_via) \<noteq> PCB_VIA_T then duplicates_loop b aVia rest modified
      else if m_ViaType (heap b alt_via) = VIA_THROUGH
              \<and> m_Start (heap b alt_via) = m_Start (heap b aVia)
      then duplicates_loop (Remove_item b alt_via) aVia rest True
      else duplicates_loop b aVia rest modified)"

definition remove_duplicates_of_via :: "BOARD \<Rightarrow> track_ptr \<Rightarrow> bool \<times> BOARD" where
  "remove_duplicates_of_via b aVia =
     duplicates_loop b aVia (items_behind (m_Track b) aVia) False"

text \<open>
  The body of the loop of \<open>clean_vias\<close> for one via. The third component tells whether
  the via has unlinked itself: the loop then asks the unlinked via for its successor, which
  it does not have, and ends. \<open>AllCuMask\<close> is \<open>LSET::AllCuMask()\<close>.
\<close>

definition clean_via :: "nat set \<Rightarrow> BOARD \<Rightarrow> track_ptr \<Rightarrow> bool \<times> BOARD \<times> bool" where
  "clean_via AllCuMask b via =
     (let b1 = (if m_Start (heap b via) \<noteq> m_End (heap b via)
                then b\<lparr>heap := (heap b)(via := (heap b via)\<lparr>m_End := m_Start (heap b via)\<rparr>)\<rparr>
                else b)
      in if m_ViaType (heap b1 via) = VIA_THROUGH then
           (let (modified, b2) = remove_duplicates_of_via b1 via
            in if m_ThermalCode (heap b2 via) \<noteq> 0
                  \<and> (m_NetCode (heap b2 via) \<noteq> 0 \<or> m_ThermalZones (heap b2 via) \<noteq> 0)
               then (modified, b2, False)
               else if \<exists>pad\<in>set (m_PadsConnected (heap b2 via)). AllCuMask \<subseteq> pad_LayerSet pad
               then (True, Remove_item b2 via, True)
               else (modified, b2, False))
         else (False, b1, False))"

fun vias_loop :: "nat set \<Rightarrow> BOARD \<Rightarrow> track_ptr list \<Rightarrow> bool \<Rightarrow> bool \<times> BOARD" where
  "vias_loop AllCuMask b [] modified = (modified, b)"
| "vias_loop AllCuMask b (via # rest) modified =
     (if via \<notin> set (m_Track b) \<or> m_Type (heap b via) \<noteq> PCB_VIA_T
      then vias_loop AllCuMask b rest modified
      else (case clean_via AllCuMask b via of
              (m, b', unlinked) \<Rightarrow>
                if unlinked then (modified \<or> m, b')
                else vias_loop AllCuMask b' rest (modified \<or> m)))"

definition clean_vias :: "nat set \<Rightarrow> BOARD \<Rightarrow> bool \<times> BOARD" where
  "clean_vias AllCuMask b = vias_loop AllCuMask b (m_Track b) False"

subsection \<open>Collaborators of the cleaner that are not part of the file\<close>

datatype ENDPOINT_T = ENDPOINT_START | ENDPOINT_END

text \<open>
  The cleaner calls functions of \<open>CONNECTIONS\<close>, \<open>D_PAD\<close>, \<open>TRACK\<close>, \<open>BOARD\<close>,
  \<open>TEARDROPS\<close> and \<open>ROUNDED_TRACKS_CORNERS\<close> that are not part of the file. They are
  parameters of the model:
  \<^item> \<open>SearchTracksConnectedToPads\<close> fills \<open>m_PadsConnected\<close> of every item;
  \<^item> \<open>SearchConnectedTracks\<close> stands for the rebuilding of \<open>m_TracksConnected\<close> at the
    start of the short-circuit removal;
  \<^item> \<open>HitTest\<close> is the hit test of a pad;
  \<^item> \<open>IsNull\<close> is \<open>TRACK::IsNull\<close>;
  \<^item> \<open>GetTrack\<close> is \<open>TRACK::GetTrack\<close> with the arguments the file always passes
    (no end of the search, same net only, not sequential): the item, the start of the
    search and the end point;
  \<^item> \<open>HitTestForAnyFilledArea\<close> tells whether a filled area of the net covers a point
    between two layers, and \<open>LayerPair\<close> gives the layers of a via;
  \<^item> \<open>LSET_AllCuMask\<close> is \<open>LSET::AllCuMask()\<close>;
  \<^item> \<open>RoundedTracksCorners_Clean\<close> and \<open>Teardrops_Clean\<close> are the two \<open>Clean\<close>
    calls of \<open>CleanupBoard\<close>.
  The fields \<open>start\<close> and \<open>end\<close> of a track, which the cleaner writes and never reads,
  are left out.
\<close>

record COLLABORATORS =
  SearchTracksConnectedToPads :: "BOARD \<Rightarrow> BOARD"
  SearchConnectedTracks :: "BOARD \<Rightarrow> BOARD"
  HitTest :: "D_PAD \<Rightarrow> wxPoint \<Rightarrow> bool"
  IsNull :: "TRACK \<Rightarrow> bool"
  GetTrack :: "BOARD \<Rightarrow> track_ptr \<Rightarrow> track_ptr option \<Rightarrow> ENDPOINT_T \<Rightarrow> track_ptr option"
  HitTestForAnyFilledArea :: "wxPoint \<Rightarrow> nat \<Rightarrow> nat \<Rightarrow> nat \<Rightarrow> bool"
  LayerPair :: "TRACK \<Rightarrow> nat \<times> nat"
  LSET_AllCuMask :: "nat set"
  RoundedTracksCorners_Clean :: "BOARD \<Rightarrow> bool \<times> BOARD"
  Teardrops_Clean :: "BOARD \<Rightarrow> bool \<times> BOARD"

definition GetEndPoint :: "TRACK \<Rightarrow> ENDPOINT_T \<Rightarrow> wxPoint" where
  "GetEndPoint t aEndPoint = (case aEndPoint of ENDPOINT_START \<Rightarrow> m_Start t | ENDPOINT_END \<Rightarrow> m_End t)"

definition update_item :: "BOARD \<Rightarrow> track_ptr \<Rightarrow> (TRACK \<Rightarrow> TRACK) \<Rightarrow> BOARD" where
  "update_item b a f = b\<lparr>heap := (heap b)(a := f (heap b a))\<rparr>"

subsection \<open>Connection info\<close>

fun clear_info :: "BOARD \<Rightarrow> track_ptr list \<Rightarrow> BOARD" where
  "clear_info b [] = b"
| "clear_info b (track # rest) =
     clear_info
       (update_item b track
          (\<lambda>t. t\<lparr>m_PadsConnected := [], START_ON_PAD := False, END_ON_PAD := False, BUSY := False\<rparr>))
       rest"

fun mark_pads :: "COLLABORATORS \<Rightarrow> TRACK \<Rightarrow> D_PAD list \<Rightarrow> TRACK" where
  "mark_pads env t [] = t"
| "mark_pads env t (pad # pads) =
     (let t1 = (if HitTest env pad (m_Start t) then t\<lparr>START_ON_PAD := True\<rparr> else t);
          t2 = (if HitTest env pad (m_End t1) then t1\<lparr>END_ON_PAD := True\<rparr> else t1)
      in mark_pads env t2 pads)"

fun mark_tracks :: "COLLABORATORS \<Rightarrow> BOARD \<Rightarrow> track_ptr list \<Rightarrow> BOARD" where
  "mark_tracks env b [] = b"
| "mark_tracks env b (track # rest) =
     mark_tracks env
       (update_item b track (\<lambda>t. mark_pads env t (m_PadsConnected t))) rest"

definition buildTrackConnectionInfo :: "COLLABORATORS \<Rightarrow> BOARD \<Rightarrow> BOARD" where
  "buildTrackConnectionInfo env b =
     (let b1 = clear_info b (m_Track b);
          b2 = SearchTracksConnectedToPads env b1
      in mark_tracks env b2 (m_Track b2))"

subsection \<open>Null segments, duplicate tracks and collinear segments\<close>

fun null_loop :: "COLLABORATORS \<Rightarrow> BOARD \<Rightarrow> track_ptr list \<Rightarrow> bool \<Rightarrow> bool \<times> BOARD" where
  "null_loop env b [] modified = (modified, b)"
| "null_loop env b (segment # rest) modified =
     (if IsNull env (heap b segment) then null_loop env (Remove_item b segment) rest True
      else null_loop env b rest modified)"

definition delete_null_segments :: "COLLABORATORS \<Rightarrow> BOARD \<Rightarrow> bool \<times> BOARD" where
  "delete_null_segments env b = null_loop env b (m_Track b) False"

fun duplicate_tracks_loop :: "BOARD \<Rightarrow> track_ptr \<Rightarrow> track_ptr list \<Rightarrow> bool \<Rightarrow> bool \<times> BOARD" where
  "duplicate_tracks_loop b aTrack [] modified = (modified, b)"
| "duplicate_tracks_loop b aTrack (other # rest) modified =
     (let t = heap b aTrack; ot = heap b other
      in if m_NetCode t \<noteq> m_NetCode ot then (modified, b)
         else if m_Type t = PCB_TEARDROP_T then (modified, b)
         else if m_Type ot = PCB_TEARDROP_T then duplicate_tracks_loop b aTrack rest modified
         else if m_Type t = PCB_ROUNDEDTRACKSCORNER_T then (modified, b)
         else if m_Type ot = PCB_ROUNDEDTRACKSCORNER_T then duplicate_tracks_loop b aTrack rest modified
         else if m_Type t = m_Type ot \<and> m_Layer t = m_Layer ot
                 \<and> ((m_Start t = m_Start ot \<and> m_End t = m_End ot)
                     \<or> (m_Start t = m_End ot \<and> m_End t = m_Start ot))
         then duplicate_tracks_loop (Remove_item b other) aTrack rest True
         else duplicate_tracks_loop b aTrack rest modified)"

definition remove_duplicates_of_track :: "BOARD \<Rightarrow> track_ptr \<Rightarrow> bool \<times> BOARD" where
  "remove_duplicates_of_track b aTrack =
     duplicate_tracks_loop b aTrack (items_behind (m_Track b) aTrack) False"

text \<open>
  The coordinates of a point are C \<open>int\<close>s; the differences handed to
  \<open>parallelism_test\<close> are \<open>int\<close> differences.
\<close>

definition delta :: "int \<Rightarrow> int \<Rightarrow> 32 word" where
  "delta p q = word_of_int p - word_of_int q"

definition mergeCollinearSegmentIfPossible ::
    "BOARD \<Rightarrow> track_ptr \<Rightarrow> track_ptr \<Rightarrow> ENDPOINT_T \<Rightarrow> track_ptr option \<times> BOARD" where
  "mergeCollinearSegmentIfPossible b aTrackRef aCandidate aEndType =
     (let r = heap b aTrackRef; c = heap b aCandidate
      in if m_Width r \<noteq> m_Width c \<or> m_Type r \<noteq> PCB_TRACE_T \<or> m_Type c \<noteq> PCB_TRACE_T
         then (None, b)
         else if m_Start r = m_Start c \<and> m_End r = m_End c then (Some aCandidate, b)
         else if m_Start r = m_End c \<and> m_End r = m_Start c then (Some aCandidate, b)
         else if \<not> parallelism_test
                     (delta (fst (m_End r)) (fst (m_Start r))) (delta (snd (m_End r)) (snd (m_Start r)))
                     (delta (fst (m_End c)) (fst (m_Start c))) (delta (snd (m_End c)) (snd (m_Start c)))
         then (None, b)
         else if aEndType = ENDPOINT_START then
           (if START_ON_PAD r then (None, b)
            else if m_Start r = m_Start c
            then (Some aCandidate,
                  update_item b aTrackRef (\<lambda>t. t\<lparr>m_Start := m_End c, START_ON_PAD := END_ON_PAD c\<rparr>))
            else (Some aCandidate,
                  update_item b aTrackRef (\<lambda>t. t\<lparr>m_Start := m_Start c, START_ON_PAD := START_ON_PAD c\<rparr>)))
         else
           (if END_ON_PAD r then (None, b)
            else if m_End r = m_Start c
            then (Some aCandidate,
                  update_item b aTrackRef (\<lambda>t. t\<lparr>m_End := m_End c, END_ON_PAD := END_ON_PAD c\<rparr>))
            else (Some aCandidate,
                  update_item b aTrackRef (\<lambda>t. t\<lparr>m_End := m_Start c, END_ON_PAD := START_ON_PAD c\<rparr>))))"

definition merge_at_endpoint ::
    "COLLABORATORS \<Rightarrow> track_ptr \<Rightarrow> bool \<times> BOARD \<Rightarrow> ENDPOINT_T \<Rightarrow> bool \<times> BOARD" where
  "merge_at_endpoint env aSegment st endpoint =
     (let merged_this = fst st; b = snd st
      in case Next b aSegment of
           None \<Rightarrow> (merged_this, b)
         | Some nxt \<Rightarrow>
             (case GetTrack env b aSegment (Some nxt) endpoint of
                None \<Rightarrow> (merged_this, b)
              | Some other \<Rightarrow>
                  if m_Width (heap b aSegment) = m_Width (heap b other)
                     \<and> m_Type (heap b other) = PCB_TRACE_T
                  then
                    (let b1 = update_item b other (\<lambda>t. t\<lparr>BUSY := True\<rparr>);
                         yet_another = GetTrack env b1 aSegment (GetFirstItem b1) endpoint;
                         b2 = update_item b1 other (\<lambda>t. t\<lparr>BUSY := False\<rparr>)
                     in if yet_another = None then
                          (case mergeCollinearSegmentIfPossible b2 aSegment other endpoint of
                             (Some segDelete, b3) \<Rightarrow> (True, Remove_item b3 segDelete)
                           | (None, b3) \<Rightarrow> (merged_this, b3))
                        else (merged_this, b2))
                  else (merged_this, b)))"

definition merge_collinear_of_track :: "COLLABORATORS \<Rightarrow> BOARD \<Rightarrow> track_ptr \<Rightarrow> bool \<times> BOARD" where
  "merge_collinear_of_track env b aSegment =
     merge_at_endpoint env aSegment
       (merge_at_endpoint env aSegment (False, b) ENDPOINT_START) ENDPOINT_END"

fun duplicates_pass :: "BOARD \<Rightarrow> track_ptr list \<Rightarrow> bool \<Rightarrow> bool \<times> BOARD" where
  "duplicates_pass b [] modified = (modified, b)"
| "duplicates_pass b (segment # rest) modified =
     (if segment \<notin> set (m_Track b) then duplicates_pass b rest modified
      else (case remove_duplicates_of_track b segment of
              (m, b') \<Rightarrow> duplicates_pass b' rest (modified \<or> m)))"

text \<open>
  In the merge loop a segment that has unlinked itself has no successor, and the loop ends
  there; this happens only if \<open>GetTrack\<close> hands the segment itself back.
\<close>

fun merge_pass :: "COLLABORATORS \<Rightarrow> BOARD \<Rightarrow> track_ptr list \<Rightarrow> bool \<Rightarrow> bool \<times> BOARD" where
  "merge_pass env b [] modified = (modified, b)"
| "merge_pass env b (segment # rest) modified =
     (if segment \<notin> set (m_Track b) \<or> m_Type (heap b segment) \<noteq> PCB_TRACE_T
      then merge_pass env b rest modified
      else (case merge_collinear_of_track env b segment of
              (merged_this, b') \<Rightarrow>
                if merged_this \<and> segment \<notin> set (m_Track b') then (True, b')
                else merge_pass env b' rest (modified \<or> merged_this)))"

definition clean_segments :: "COLLABORATORS \<Rightarrow> BOARD \<Rightarrow> bool \<times> BOARD" where
  "clean_segments env b =
     (let (m1, b1) = delete_null_segments env b;
          (m2, b2) = duplicates_pass b1 (m_Track b1) m1
      in merge_pass env b2 (m_Track b2) m2)"

subsection \<open>Dangling tracks\<close>

definition zoneForTrackEndpoint :: "COLLABORATORS \<Rightarrow> BOARD \<Rightarrow> track_ptr \<Rightarrow> ENDPOINT_T \<Rightarrow> bool" where
  "zoneForTrackEndpoint env b aTrack aEndPoint =
     (let t = heap b aTrack;
          (top_layer, bottom_layer) =
            (if m_Type t = PCB_VIA_T then LayerPair env t else (m_Layer t, m_Layer t))
      in HitTestForAnyFilledArea env (GetEndPoint t aEndPoint) top_layer bottom_layer (m_NetCode t))"

definition testTrackEndpointDangling ::
    "COLLABORATORS \<Rightarrow> BOARD \<Rightarrow> track_ptr \<Rightarrow> ENDPOINT_T \<Rightarrow> bool \<times> BOARD" where
  "testTrackEndpointDangling env b aTrack aEndPoint =
     (case GetTrack env b aTrack (GetFirstItem b) aEndPoint of
        None \<Rightarrow> (\<not> zoneForTrackEndpoint env b aTrack aEndPoint, b)
      | Some other \<Rightarrow>
          if m_Type (heap b other) = PCB_VIA_T then
            (let b1 = update_item b aTrack (\<lambda>t. t\<lparr>BUSY := True\<rparr>);
                 flag_erase =
                   (GetTrack env b1 other (GetFirstItem b1) aEndPoint = None
                    \<and> \<not> zoneForTrackEndpoint env b1 other aEndPoint)
             in (flag_erase, update_item b1 aTrack (\<lambda>t. t\<lparr>BUSY := False\<rparr>)))
          else (False, b))"

lemma testTrackEndpointDangling_m_Track:
  "m_Track (snd (testTrackEndpointDangling env b a e)) = m_Track b"
  by (simp add: testTrackEndpointDangling_def update_item_def Let_def split: option.splits)

definition test_both_ends :: "COLLABORATORS \<Rightarrow> BOARD \<Rightarrow> track_ptr \<Rightarrow> bool \<times> BOARD" where
  "test_both_ends env b track =
     (let (e1, b1) =
            (if \<not> START_ON_PAD (heap b track)
             then testTrackEndpointDangling env b track ENDPOINT_START else (False, b))
      in if \<not> e1 \<and> \<not> END_ON_PAD (heap b1 track)
         then (case testTrackEndpointDangling env b1 track ENDPOINT_END of
                 (e2, b2) \<Rightarrow> (e1 \<or> e2, b2))
         else (e1, b1))"

lemma test_both_ends_m_Track: "m_Track (snd (test_both_ends env b a)) = m_Track b"
  by (simp add: test_both_ends_def testTrackEndpointDangling_m_Track case_prod_beta Let_def)

fun dangling_round :: "COLLABORATORS \<Rightarrow> BOARD \<Rightarrow> track_ptr list \<Rightarrow> bool \<Rightarrow> bool \<times> BOARD" where
  "dangling_round env b [] item_erased = (item_erased, b)"
| "dangling_round env b (track # rest) item_erased =
     (if track \<notin> set (m_Track b) then dangling_round env b rest item_erased
      else if m_Type (heap b track) = PCB_TEARDROP_T then dangling_round env b rest item_erased
      else if m_Type (heap b track) = PCB_ROUNDEDTRACKSCORNER_T
      then dangling_round env b rest item_erased
      else if m_Type (heap b track) = PCB_VIA_T \<and> m_ThermalCode (heap b track) \<noteq> 0
              \<and> m_ThermalZones (heap b track) \<noteq> 0
      then dangling_round env b rest item_erased
      else if fst (test_both_ends env b track)
      then dangling_round env (Remove_item (snd (test_both_ends env b track)) track) rest True
      else dangling_round env (snd (test_both_ends env b track)) rest item_erased)"

lemma dangling_round_length:
  "length (m_Track (snd (dangling_round env b ts e))) \<le> length (m_Track b)
   \<and> (fst (dangling_round env b ts e) \<and> \<not> e
        \<longrightarrow> length (m_Track (snd (dangling_round env b ts e))) < length (m_Track b))"
proof (induction ts arbitrary: b e)
  case Nil
  then show ?case by simp
next
  case (Cons t ts)
  let ?b' = "snd (test_both_ends env b t)"
  have same: "m_Track ?b' = m_Track b" by (rule test_both_ends_m_Track)
  show ?case
  proof (cases "t \<in> set (m_Track b) \<and> m_Type (heap b t) \<noteq> PCB_TEARDROP_T
      \<and> m_Type (heap b t) \<noteq> PCB_ROUNDEDTRACKSCORNER_T
      \<and> \<not> (m_Type (heap b t) = PCB_VIA_T \<and> m_ThermalCode (heap b t) \<noteq> 0
             \<and> m_ThermalZones (heap b t) \<noteq> 0)")
    case False
    then have eq: "dangling_round env b (t # ts) e = dangling_round env b ts e" by auto
    show ?thesis unfolding eq by (rule Cons.IH)
  next
    case True
    show ?thesis
    proof (cases "fst (test_both_ends env b t)")
      case erase: True
      let ?r = "Remove_item ?b' t"
      from True have "t \<in> set (m_Track b)" by simp
      then have "0 < length (m_Track b)" by (rule length_pos_if_in_set)
      with \<open>t \<in> set (m_Track b)\<close> have lt: "length (m_Track ?r) < length (m_Track b)"
        by (simp add: Remove_item_def same length_remove1)
      have eq: "dangling_round env b (t # ts) e = dangling_round env ?r ts True"
        using True erase by auto
      from Cons.IH [of ?r True]
      have "length (m_Track (snd (dangling_round env ?r ts True))) \<le> length (m_Track ?r)"
        by (rule conjunct1)
      with lt show ?thesis unfolding eq by simp
    next
      case keep: False
      then have eq: "dangling_round env b (t # ts) e = dangling_round env ?b' ts e"
        using True by auto
      from Cons.IH [of ?b' e] show ?thesis unfolding eq same .
    qed
  qed
qed

function dangling_loop :: "COLLABORATORS \<Rightarrow> BOARD \<Rightarrow> bool \<Rightarrow> bool \<times> BOARD" where
  "dangling_loop env b modified =
     (if fst (dangling_round env b (m_Track b) False)
      then dangling_loop env (snd (dangling_round env b (m_Track b) False)) True
      else (modified, snd (dangling_round env b (m_Track b) False)))"
  by pat_completeness auto
termination
  by (relation "measure (\<lambda>(env, b, m). length (m_Track b))")
     (use dangling_round_length in auto)

declare dangling_loop.simps [simp del]

definition deleteDanglingTracks :: "COLLABORATORS \<Rightarrow> BOARD \<Rightarrow> bool \<times> BOARD" where
  "deleteDanglingTracks env b =
     (if m_Track b = [] then (False, b) else dangling_loop env b False)"

subsection \<open>The cleanup run\<close>

definition CleanupBoard ::
    "COLLABORATORS \<Rightarrow> bool \<Rightarrow> bool \<Rightarrow> bool \<Rightarrow> bool \<Rightarrow> BOARD \<Rightarrow> bool \<times> BOARD" where
  "CleanupBoard env aRemoveMisConnected aCleanVias aMergeSegments aDeleteUnconnected b =
     (let b0 = buildTrackConnectionInfo env b;
          (m0, b1) = RoundedTracksCorners_Clean env b0;
          (m1, b2) =
            (if aCleanVias
             then (case clean_vias (LSET_AllCuMask env) b1 of (m, b') \<Rightarrow> (m0 \<or> m, b'))
             else (m0, b1));
          (m2, b3) =
            (if aMergeSegments
             then (case clean_segments env b2 of (m, b') \<Rightarrow> (m1 \<or> m, b'))
             else if aRemoveMisConnected
             then (case delete_null_segments env b2 of (m, b') \<Rightarrow> (m1 \<or> m, b'))
             else (m1, b2));
          (m3, b4) =
            (if aRemoveMisConnected
             then (case removeBadTrackSegments
                          (\<lambda>x. SearchConnectedTracks env (SearchTracksConnectedToPads env x)) b3 of
                     (True, b') \<Rightarrow> (True, buildTrackConnectionInfo env b')
                   | (False, b') \<Rightarrow> (m2, b'))
             else (m2, b3));
          (m4, b5) =
            (if aDeleteUnconnected
             then (let b' = (if m3 then buildTrackConnectionInfo env b4 else b4)
                   in case deleteDanglingTracks env b' of
                        (True, b'') \<Rightarrow>
                          (True, if aMergeSegments then snd (clean_segments env b'') else b'')
                      | (False, b'') \<Rightarrow> (m3, b''))
             else (m3, b4));
          (m5, b6) = Teardrops_Clean env b5
      in (m4 \<or> m5, b6))"

subsection \<open>A connectivity builder after the spec\<close>

text \<open>
  Modelled from the spec: \<open>CONNECTIONS::SearchTracksConnectedToPads\<close> and the hit test
  of a pad are not part of the file. The connectivity builder matches pad positions
  against item endpoints, filtered to the same net, using each pad's layer set and hit
  test; the hit test of a point is taken at the pad's position.
\<close>

definition hit_at_position :: "D_PAD \<Rightarrow> wxPoint \<Rightarrow> bool" where
  "hit_at_position pad pt = (pad_Pos pad = pt)"

definition touching_pads :: "D_PAD list \<Rightarrow> TRACK \<Rightarrow> D_PAD list" where
  "touching_pads pads t =
     filter (\<lambda>pad. pad_NetCode pad = m_NetCode t \<and> pad_LayerSet pad \<inter> m_LayerSet t \<noteq> {}
                   \<and> (hit_at_position pad (m_Start t) \<or> hit_at_position pad (m_End t))) pads"

fun connect_pads_loop :: "D_PAD list \<Rightarrow> BOARD \<Rightarrow> track_ptr list \<Rightarrow> BOARD" where
  "connect_pads_loop pads b [] = b"
| "connect_pads_loop pads b (track # rest) =
     connect_pads_loop pads
       (update_item b track (\<lambda>t. t\<lparr>m_PadsConnected := m_PadsConnected t @ touching_pads pads t\<rparr>))
       rest"

definition connect_pads :: "D_PAD list \<Rightarrow> BOARD \<Rightarrow> BOARD" where
  "connect_pads pads b = connect_pads_loop pads b (m_Track b)"

text \<open>
  The collaborators of a board with the given pads and copper layers, on which no teardrop
  or rounded corner needs cleaning; the remaining collaborators are arguments.
\<close>

definition collaborators_with ::
    "D_PAD list \<Rightarrow> nat set \<Rightarrow> (BOARD \<Rightarrow> BOARD) \<Rightarrow> (TRACK \<Rightarrow> bool)
     \<Rightarrow> (BOARD \<Rightarrow> track_ptr \<Rightarrow> track_ptr option \<Rightarrow> ENDPOINT_T \<Rightarrow> track_ptr option)
     \<Rightarrow> (wxPoint \<Rightarrow> nat \<Rightarrow> nat \<Rightarrow> nat \<Rightarrow> bool) \<Rightarrow> (TRACK \<Rightarrow> nat \<times> nat) \<Rightarrow> COLLABORATORS" where
  "collaborators_with pads all_cu sct isnull gt zone lp =
     \<lparr>SearchTracksConnectedToPads = connect_pads pads,
      SearchConnectedTracks = sct,
      HitTest = hit_at_position,
      IsNull = isnull,
      GetTrack = gt,
      HitTestForAnyFilledArea = zone,
      LayerPair = lp,
      LSET_AllCuMask = all_cu,
      RoundedTracksCorners_Clean = (\<lambda>b. (False, b)),
      Teardrops_Clean = (\<lambda>b. (False, b))\<rparr>"

section \<open>Example boards\<close>

definition TRACK0 :: TRACK where
  "TRACK0 =
     \<lparr>m_Type = PCB_TRACE_T, m_Start = (0, 0), m_End = (0, 0), m_Width = 0, m_Layer = 0,
      m_LayerSet = {0}, m_NetCode = 0, m_Param = 0, m_ViaType = VIA_THROUGH,
      m_ThermalCode = 0, m_ThermalZones = 0, FLAG0 = False, START_ON_PAD = False,
      END_ON_PAD = False, BUSY = False, m_PadsConnected = [], m_TracksConnected = []\<rparr>"

text \<open>A trace from \<open>(0, 0)\<close> to \<open>(10, 0)\<close> and a via of the same net at \<open>(5, 0)\<close>.\<close>

definition board_via_beside_track :: BOARD where
  "board_via_beside_track =
     \<lparr>m_Track = [1, 2],
      heap = (\<lambda>_. TRACK0)
        (1 := TRACK0\<lparr>m_End := (10, 0), m_NetCode := 1\<rparr>,
         2 := TRACK0\<lparr>m_Type := PCB_VIA_T, m_Start := (5, 0), m_End := (5, 0),
                     m_LayerSet := {0, 1}, m_NetCode := 1\<rparr>),
      m_netcode_first_trackitems = []\<rparr>"

text \<open>Four items in two nets, the nets interleaved.\<close>

definition board_unsorted :: BOARD where
  "board_unsorted =
     \<lparr>m_Track = [1, 2, 3, 4],
      heap = (\<lambda>_. TRACK0)
        (1 := TRACK0\<lparr>m_NetCode := 3\<rparr>, 2 := TRACK0\<lparr>m_NetCode := 1\<rparr>,
         3 := TRACK0\<lparr>m_NetCode := 3\<rparr>, 4 := TRACK0\<lparr>m_NetCode := 1\<rparr>),
      m_netcode_first_trackitems = []\<rparr>"

text \<open>
  A sorted list of two items in nets 1 and 2. The index entry of net 2 still points at
  item 1, which was the first item of net 2 before it moved to net 1.
\<close>

definition board_stale_entry :: BOARD where
  "board_stale_entry =
     \<lparr>m_Track = [1, 2],
      heap = (\<lambda>_. TRACK0)(1 := TRACK0\<lparr>m_NetCode := 1\<rparr>, 2 := TRACK0\<lparr>m_NetCode := 2\<rparr>),
      m_netcode_first_trackitems = [None, None, Some 1]\<rparr>"

text \<open>
  A sorted list in which the entry of net 2 points at item 4, behind the two items of
  net 2.
\<close>

definition board_lazy_entry :: BOARD where
  "board_lazy_entry =
     \<lparr>m_Track = [1, 2, 3, 4],
      heap = (\<lambda>_. TRACK0)
        (1 := TRACK0\<lparr>m_NetCode := 1\<rparr>, 2 := TRACK0\<lparr>m_NetCode := 2\<rparr>,
         3 := TRACK0\<lparr>m_NetCode := 2\<rparr>, 4 := TRACK0\<lparr>m_NetCode := 3\<rparr>),
      m_netcode_first_trackitems = [None, Some 1, Some 4, Some 4]\<rparr>"

text \<open>
  A sorted list of two items in nets 1 and 3, with the index that \<open>SortTracks\<close> builds
  for it, and a new item 3 of net 2 that is not yet linked.
\<close>

definition board_gap :: BOARD where
  "board_gap =
     \<lparr>m_Track = [1, 2],
      heap = (\<lambda>_. TRACK0)
        (1 := TRACK0\<lparr>m_NetCode := 1\<rparr>, 2 := TRACK0\<lparr>m_NetCode := 3\<rparr>,
         3 := TRACK0\<lparr>m_NetCode := 2\<rparr>),
      m_netcode_first_trackitems = [None, Some 1, None, Some 2]\<rparr>"

text \<open>
  Two traces of nets 1 and 2 that share the point \<open>(10, 0)\<close>; each has the other in its
  list of connected tracks.
\<close>

definition board_short :: BOARD where
  "board_short =
     \<lparr>m_Track = [1, 2],
      heap = (\<lambda>_. TRACK0)
        (1 := TRACK0\<lparr>m_End := (10, 0), m_NetCode := 1, m_TracksConnected := [2]\<rparr>,
         2 := TRACK0\<lparr>m_Start := (10, 0), m_End := (20, 0), m_NetCode := 2,
                     m_TracksConnected := [1]\<rparr>),
      m_netcode_first_trackitems = []\<rparr>"





text \<open>
  Two through vias of net 1 at \<open>(5, 5)\<close> and \<open>(9, 9)\<close>, each on a pad of net 1 that
  covers both copper layers of the board.
\<close>

definition pads_under_vias :: "D_PAD list" where
  "pads_under_vias =
     [\<lparr>pad_NetCode = 1, pad_Pos = (5, 5), pad_LayerSet = {0, 1}\<rparr>,
      \<lparr>pad_NetCode = 1, pad_Pos = (9, 9), pad_LayerSet = {0, 1}\<rparr>]"

definition board_vias_on_pads :: BOARD where
  "board_vias_on_pads =
     \<lparr>m_Track = [1, 2],
      heap = (\<lambda>_. TRACK0)
        (1 := TRACK0\<lparr>m_Type := PCB_VIA_T, m_Start := (5, 5), m_End := (5, 5),
                     m_LayerSet := {0, 1}, m_NetCode := 1\<rparr>,
         2 := TRACK0\<lparr>m_Type := PCB_VIA_T, m_Start := (9, 9), m_End := (9, 9),
                     m_LayerSet := {0, 1}, m_NetCode := 1\<rparr>),
      m_netcode_first_trackitems = []\<rparr>"

section \<open>Specification predicates\<close>

text \<open>
  What the backward walk of \<open>GetAndSync\<close> yields when started at position \<open>i\<close> of the
  list on an item whose netcode is at least \<open>n\<close>: an item at or before that position,
  of netcode at least \<open>n\<close>, which is either the head of the list with netcode \<open>n\<close> or
  has a predecessor of smaller netcode; or nothing, and then the head's netcode exceeds
  \<open>n\<close>.
\<close>

definition walk_post :: "BOARD \<Rightarrow> nat \<Rightarrow> nat \<Rightarrow> track_ptr option \<Rightarrow> bool" where
  "walk_post b n i res =
     (case res of
        Some r \<Rightarrow> \<exists>j\<le>i. r = m_Track b ! j \<and> n \<le> GetNetCode b r
                   \<and> (j = 0 \<longrightarrow> GetNetCode b r = n)
                   \<and> (0 < j \<longrightarrow> GetNetCode b (m_Track b ! (j - 1)) < n)
      | None \<Rightarrow> n < GetNetCode b (m_Track b ! 0))"

text \<open>
  A consistent index: every entry that is set points to an item of the list whose netcode
  is not below the entry's own (so the item is not in front of the entry's net), and the
  netcode of every item of the list has an entry that is set.
\<close>

definition index_ok :: "BOARD \<Rightarrow> bool" where
  "index_ok b =
     ((\<forall>k\<in>set [0..<length (m_netcode_first_trackitems b)].
         case m_netcode_first_trackitems b ! k of
           None \<Rightarrow> True
         | Some a \<Rightarrow> a \<in> set (m_Track b) \<and> k \<le> GetNetCode b a)
      \<and> (\<forall>a\<in>set (m_Track b).
            GetNetCode b a < length (m_netcode_first_trackitems b)
            \<and> m_netcode_first_trackitems b ! GetNetCode b a \<noteq> None))"

text \<open>
  What the inner loop of \<open>GetBestInsertPoint\<close> yields for a new netcode \<open>n\<close>: an
  item of smaller netcode whose successor has a larger netcode; or nothing, and then every
  item has a smaller netcode.
\<close>

definition scan_post :: "track_ptr list \<Rightarrow> (track_ptr \<Rightarrow> nat) \<Rightarrow> nat \<Rightarrow> track_ptr option \<Rightarrow> bool" where
  "scan_post xs nc n res =
     (case res of
        Some p \<Rightarrow> \<exists>j. p = xs ! j \<and> Suc j < length xs \<and> nc p < n \<and> n < nc (xs ! Suc j)
      | None \<Rightarrow> \<forall>a\<in>set xs. nc a < n)"

text \<open>
  The returned item \<open>r\<close> is a neighbour of the insertion position of a new item of
  netcode \<open>n\<close>: it is in the list, its predecessor (if any) has a smaller netcode, which
  is what the \<open>DEBUG\<close> assertion of \<open>GetBestInsertPoint\<close> checks, and the list stays
  sorted when the new item is spliced immediately before \<open>r\<close> if the netcode of \<open>r\<close>
  is not smaller than \<open>n\<close>, and immediately after \<open>r\<close> otherwise.
\<close>

definition insert_post :: "BOARD \<Rightarrow> nat \<Rightarrow> track_ptr \<Rightarrow> track_ptr \<Rightarrow> bool" where
  "insert_post b n new r =
     (r \<in> set (m_Track b)
      \<and> (case Back b r of None \<Rightarrow> True | Some p \<Rightarrow> GetNetCode b p < n)
      \<and> sorted (map (GetNetCode b)
            (if n \<le> GetNetCode b r then insert_before (m_Track b) new r
             else insert_after (m_Track b) new r)))"

text \<open>
  The flagging rule of the sweep for an item \<open>s\<close>: the item is not exempt, and a
  connected pad has another netcode, or a connected item has another netcode and is not
  flagged in \<open>hv\<close>, the state of the flags when the sweep reaches \<open>s\<close>.
\<close>

definition flag_value :: "(track_ptr \<Rightarrow> TRACK) \<Rightarrow> (track_ptr \<Rightarrow> TRACK) \<Rightarrow> track_ptr \<Rightarrow> bool" where
  "flag_value h hv s =
     (\<not> exempt (h s)
      \<and> ((\<exists>p\<in>set (m_PadsConnected (h s)). pad_NetCode p \<noteq> m_NetCode (h s))
          \<or> (\<exists>t\<in>set (m_TracksConnected (h s)).
                m_NetCode (h t) \<noteq> m_NetCode (h s) \<and> \<not> FLAG0 (hv t))))"

text \<open>Two heaps that differ at most in the FLAG0 state of their items.\<close>

definition same_but_FLAG0 :: "(track_ptr \<Rightarrow> TRACK) \<Rightarrow> (track_ptr \<Rightarrow> TRACK) \<Rightarrow> bool" where
  "same_but_FLAG0 h h' = (\<forall>a. h' a = (h a)\<lparr>FLAG0 := FLAG0 (h' a)\<rparr>)"



section \<open>Properties of the geometric predicates\<close>

lemma round_double_exact:
  assumes "\<bar>n\<bar> \<le> 2 ^ 53"
  shows "round_double n = n"
proof -
  have "bitlen \<bar>n\<bar> \<le> 54"
  proof (cases "n = 0")
    case True
    then show ?thesis by simp
  next
    case False
    then have pos: "0 < \<bar>n\<bar>" by simp
    have "(2::int) ^ nat (bitlen \<bar>n\<bar> - 1) \<le> \<bar>n\<bar>"
      using bitlen_bounds [OF pos] by simp
    with assms have "(2::int) ^ nat (bitlen \<bar>n\<bar> - 1) \<le> 2 ^ 53" by linarith
    then have "nat (bitlen \<bar>n\<bar> - 1) \<le> 53"
      by (rule power_le_imp_le_exp [rotated]) simp
    then show ?thesis by linarith
  qed
  then consider "nat (bitlen \<bar>n\<bar> - 53) = 0" | "nat (bitlen \<bar>n\<bar> - 53) = 1" "bitlen \<bar>n\<bar> = 54"
    by (cases "bitlen \<bar>n\<bar> = 54") auto
  then show ?thesis
  proof cases
    case 1
    then show ?thesis
      by (simp add: round_double_def Let_def mult_sgn_abs)
  next
    case 2
    have pos: "0 < \<bar>n\<bar>" using 2(2) by (auto simp: bitlen_eq_zero_iff [symmetric])
    have "(2::int) ^ 53 \<le> \<bar>n\<bar>"
      using bitlen_bounds [OF pos] 2(2) by simp
    with assms have eq: "\<bar>n\<bar> = 2 ^ 53" by linarith
    have "sgn n * \<bar>n\<bar> = n" by (rule mult_sgn_abs)
    then have sg: "sgn n * 9007199254740992 = n" using eq by simp
    have e: "nat (bitlen 9007199254740992 - 53) = 1" using 2 eq by simp
    show ?thesis
      by (simp add: round_double_def Let_def eq e sg)
  qed
qed

text \<open>
  C8 (as amended). For two direction vectors that are both non-zero and whose two products
  are at most \<open>2 ^ 53\<close> in magnitude (so that the \<open>double\<close> products are exact),
  \<open>parallelism_test\<close> returns true exactly when the cross product vanishes.
\<close>

theorem parallelism_test_cross_product:
  assumes "\<not> (dx1 = 0 \<and> dy1 = 0)" and "\<not> (dx2 = 0 \<and> dy2 = 0)"
    and "\<bar>sint dy1 * sint dx2\<bar> \<le> 2 ^ 53" and "\<bar>sint dx1 * sint dy2\<bar> \<le> 2 ^ 53"
  shows "parallelism_test dx1 dy1 dx2 dy2 \<longleftrightarrow> sint dy1 * sint dx2 = sint dx1 * sint dy2"
  using assms
  by (auto simp: parallelism_test_def round_double_exact signed_eq_0_iff)

theorem parallelism_test_cross_product_witness:
  "parallelism_test 3 6 (-2) (-4) \<and> sint (6 :: 32 word) * sint (-2 :: 32 word) = sint (3 :: 32 word) * sint (-4 :: 32 word)"
  using parallelism_test_cross_product [of 3 6 "-2" "-4"] by simp

text \<open>
  C8 (as stated) fails on a zero direction vector: the cross product of \<open>(0, 0)\<close> and
  \<open>(1, 0)\<close> vanishes, and the test answers false.
\<close>

theorem parallelism_test_zero_vector_counterexample:
  "\<not> (parallelism_test 0 0 1 0 \<longleftrightarrow> sint (0 :: 32 word) * sint (1 :: 32 word) = sint (0 :: 32 word) * sint (0 :: 32 word))"
  by (simp add: parallelism_test_def)

section \<open>Properties of the track list\<close>

lemma first_index_nth_distinct:
  "distinct xs \<Longrightarrow> i < length xs \<Longrightarrow> first_index xs (xs ! i) = Some i"
proof (induction xs arbitrary: i)
  case Nil
  then show ?case by simp
next
  case (Cons x xs)
  then show ?case by (cases i) auto
qed

lemma Back_nth:
  assumes "distinct (m_Track b)" and "i < length (m_Track b)"
  shows "Back b (m_Track b ! i) = (if i = 0 then None else Some (m_Track b ! (i - 1)))"
  using first_index_nth_distinct [OF assms] by (cases i) (simp_all add: Back_def)

lemma Next_nth:
  assumes "distinct (m_Track b)" and "i < length (m_Track b)"
  shows "Next b (m_Track b ! i)
         = (if Suc i < length (m_Track b) then Some (m_Track b ! Suc i) else None)"
  using first_index_nth_distinct [OF assms] by (simp add: Next_def)

lemma walk_post_mono: "walk_post b n k res \<Longrightarrow> walk_post b n (Suc k) res"
proof (cases res)
  case None
  then show "walk_post b n k res \<Longrightarrow> ?thesis" by (simp add: walk_post_def)
next
  case (Some r)
  assume "walk_post b n k res"
  with Some obtain j where "j \<le> k" and j: "r = m_Track b ! j \<and> n \<le> GetNetCode b r
      \<and> (j = 0 \<longrightarrow> GetNetCode b r = n)
      \<and> (0 < j \<longrightarrow> GetNetCode b (m_Track b ! (j - 1)) < n)"
    unfolding walk_post_def by auto
  then have "j \<le> Suc k" by simp
  with j Some show ?thesis unfolding walk_post_def by (simp only: option.case) (rule exI [of _ j], blast)
qed

lemma sync_walk_nth:
  assumes "distinct (m_Track b)" and "i < length (m_Track b)"
    and "n \<le> GetNetCode b (m_Track b ! i)"
  shows "walk_post b n i (sync_walk b n (m_Track b ! i))"
  using assms(2,3)
proof (induction i)
  case 0
  have "Back b (m_Track b ! 0) = None"
    using Back_nth [OF assms(1), of 0] 0 by simp
  then have "sync_walk b n (m_Track b ! 0)
             = (if GetNetCode b (m_Track b ! 0) = n then Some (m_Track b ! 0) else None)"
    by (subst sync_walk.simps) simp
  with 0 show ?case by (simp add: walk_post_def)
next
  case (Suc k)
  have bk: "Back b (m_Track b ! Suc k) = Some (m_Track b ! k)"
    using Back_nth [OF assms(1) Suc.prems(1)] by simp
  show ?case
  proof (cases "GetNetCode b (m_Track b ! k) < n")
    case True
    then have "sync_walk b n (m_Track b ! Suc k) = Some (m_Track b ! Suc k)"
      by (subst sync_walk.simps) (simp add: bk)
    moreover have "walk_post b n (Suc k) (Some (m_Track b ! Suc k))"
      unfolding walk_post_def using True Suc.prems by (auto intro!: exI [of _ "Suc k"])
    ultimately show ?thesis by simp
  next
    case False
    then have eq: "sync_walk b n (m_Track b ! Suc k) = sync_walk b n (m_Track b ! k)"
      by (subst sync_walk.simps) (simp add: bk)
    from False Suc.prems have "walk_post b n k (sync_walk b n (m_Track b ! k))"
      by (intro Suc.IH) auto
    then show ?thesis
      unfolding eq by (rule walk_post_mono)
  qed
qed

section \<open>Properties of the index\<close>

lemma GetAndSync_m_Track [simp]: "m_Track (snd (GetAndSync b n)) = m_Track b"
  by (simp add: GetAndSync_def split: option.splits)

lemma GetAndSync_heap [simp]: "heap (snd (GetAndSync b n)) = heap b"
  by (simp add: GetAndSync_def split: option.splits)

lemma GetAndSync_None: "fst (GetAndSync b n) = None \<Longrightarrow> snd (GetAndSync b n) = b"
  by (simp add: GetAndSync_def split: option.splits if_splits)

lemma GetAndSync_Some:
  assumes "fst (GetAndSync b n) = Some r"
  shows "\<exists>a. n < length (m_netcode_first_trackitems b)
             \<and> m_netcode_first_trackitems b ! n = Some a \<and> sync_walk b n a = Some r
             \<and> m_netcode_first_trackitems (snd (GetAndSync b n))
                 = (m_netcode_first_trackitems b)[n := Some r]"
  using assms by (auto simp: GetAndSync_def split: option.splits if_splits)

lemma GetAndSync_NoneD:
  assumes "fst (GetAndSync b n) = None"
  shows "n \<ge> length (m_netcode_first_trackitems b)
         \<or> m_netcode_first_trackitems b ! n = None
         \<or> (\<exists>a. m_netcode_first_trackitems b ! n = Some a \<and> sync_walk b n a = None)"
  using assms by (auto simp: GetAndSync_def split: option.splits if_splits)

lemma sync_walk_entry:
  assumes "distinct (m_Track b)" and "a \<in> set (m_Track b)" and "n \<le> GetNetCode b a"
  shows "\<exists>i<length (m_Track b). walk_post b n i (sync_walk b n a)"
proof -
  from assms(2) obtain i where "i < length (m_Track b)" and "a = m_Track b ! i"
    by (auto simp: in_set_conv_nth)
  with sync_walk_nth [OF assms(1), of i n] assms(3) show ?thesis by auto
qed

text \<open>
  C3 (as amended). In a list sorted by netcode, for a netcode \<open>n\<close> that has an item,
  if the entry of \<open>n\<close> points to an item of the list whose netcode is at least \<open>n\<close>
  (an item at or behind the first item of the net), then \<open>GetFirst\<close> returns an item
  of the list whose netcode is \<open>n\<close> and whose predecessor, if there is one, has a
  smaller netcode, and it stores that item as the entry of \<open>n\<close>.
\<close>

theorem GetFirst_resync:
  assumes "sorted (map (GetNetCode b) (m_Track b))" and "distinct (m_Track b)"
    and "x \<in> set (m_Track b)" and "GetNetCode b x = n"
    and "n < length (m_netcode_first_trackitems b)"
    and "m_netcode_first_trackitems b ! n = Some a"
    and "a \<in> set (m_Track b)" and "n \<le> GetNetCode b a"
  shows "\<exists>r. fst (GetFirst b n) = Some r \<and> r \<in> set (m_Track b) \<and> GetNetCode b r = n
             \<and> (\<forall>p. Back b r = Some p \<longrightarrow> GetNetCode b p < n)
             \<and> m_netcode_first_trackitems (snd (GetFirst b n)) ! n = Some r"
proof -
  let ?xs = "m_Track b"
  from sync_walk_entry [OF assms(2,7,8)] obtain i where i: "i < length ?xs"
    and wp: "walk_post b n i (sync_walk b n a)" by blast
  from assms(3) obtain m where m: "m < length ?xs" "?xs ! m = x"
    by (auto simp: in_set_conv_nth)
  have mono: "\<And>p q. p \<le> q \<Longrightarrow> q < length ?xs \<Longrightarrow> GetNetCode b (?xs ! p) \<le> GetNetCode b (?xs ! q)"
    using assms(1) by (simp add: sorted_iff_nth_mono)
  have head: "GetNetCode b (?xs ! 0) \<le> n"
    using mono [of 0 m] m assms(4) by simp
  show ?thesis
  proof (cases "sync_walk b n a")
    case None
    with wp have "n < GetNetCode b (?xs ! 0)" by (simp add: walk_post_def)
    with head show ?thesis by simp
  next
    case (Some r)
    with wp obtain j where j: "j \<le> i" "r = ?xs ! j" "n \<le> GetNetCode b r"
      "j = 0 \<longrightarrow> GetNetCode b r = n" "0 < j \<longrightarrow> GetNetCode b (?xs ! (j - 1)) < n"
      by (auto simp: walk_post_def)
    have jl: "j < length ?xs" using j(1) i by simp
    have eqn: "GetNetCode b r = n"
    proof (cases "j = 0")
      case True
      with j(4) show ?thesis by simp
    next
      case False
      with j(5) have lt: "GetNetCode b (?xs ! (j - 1)) < n" by simp
      have "j \<le> m"
      proof (rule ccontr)
        assume "\<not> j \<le> m"
        then have "m \<le> j - 1" by simp
        from mono [OF this] jl have "GetNetCode b (?xs ! m) \<le> GetNetCode b (?xs ! (j - 1))"
          by simp
        with lt m assms(4) show False by simp
      qed
      from mono [OF this m(1)] j(2) m assms(4) have "GetNetCode b r \<le> n" by simp
      with j(3) show ?thesis by simp
    qed
    have bk: "\<forall>p. Back b r = Some p \<longrightarrow> GetNetCode b p < n"
      using Back_nth [OF assms(2) jl] j(2,5) by auto
    have res: "GetAndSync b n = (Some r, b\<lparr>m_netcode_first_trackitems :=
                 (m_netcode_first_trackitems b)[n := Some r]\<rparr>)"
      using assms(5,6) Some by (simp add: GetAndSync_def)
    show ?thesis
      using res eqn bk jl j(2) assms(5) by (simp add: GetFirst_def)
  qed
qed

theorem GetFirst_resync_witness:
  "m_netcode_first_trackitems board_lazy_entry ! 2 = Some 4
   \<and> fst (GetFirst board_lazy_entry 2) = Some 2
   \<and> m_netcode_first_trackitems (snd (GetFirst board_lazy_entry 2)) ! 2 = Some 2"
proof -
  have h1: "sorted (map (GetNetCode board_lazy_entry) (m_Track board_lazy_entry))"
    by code_simp
  have h2: "distinct (m_Track board_lazy_entry)"
    by code_simp
  have h3: "3 \<in> set (m_Track board_lazy_entry)"
    by code_simp
  have h4: "GetNetCode board_lazy_entry 3 = 2"
    by code_simp
  have h5: "2 < length (m_netcode_first_trackitems board_lazy_entry)"
    by code_simp
  have h6: "m_netcode_first_trackitems board_lazy_entry ! 2 = Some 4"
    by code_simp
  have h7: "4 \<in> set (m_Track board_lazy_entry)"
    by code_simp
  have h8: "2 \<le> GetNetCode board_lazy_entry 4"
    by code_simp
  from GetFirst_resync [OF h1 h2 h3 h4 h5 h6 h7 h8] obtain r
    where r: "fst (GetFirst board_lazy_entry 2) = Some r"
      "m_netcode_first_trackitems (snd (GetFirst board_lazy_entry 2)) ! 2 = Some r"
    by blast
  have "fst (GetFirst board_lazy_entry 2) = Some 2"
    by code_simp
  with r h6 show ?thesis by simp
qed

text \<open>
  C3 (as stated) fails when the stale entry points in front of the net: the walk only
  goes backwards, reaches the head of the list, and returns null although net 2 has an
  item.
\<close>

theorem GetFirst_stale_counterexample:
  "2 \<in> set (m_Track board_stale_entry) \<and> GetNetCode board_stale_entry 2 = 2
   \<and> fst (GetFirst board_stale_entry 2) = None"
  by code_simp

section \<open>Properties of the insertion point\<close>

lemma insert_before_nth:
  "distinct xs \<Longrightarrow> j < length xs \<Longrightarrow> insert_before xs new (xs ! j) = take j xs @ new # drop j xs"
proof (induction xs arbitrary: j)
  case Nil
  then show ?case by simp
next
  case (Cons x xs)
  then show ?case by (cases j) auto
qed

lemma insert_after_nth:
  "distinct xs \<Longrightarrow> j < length xs
   \<Longrightarrow> insert_after xs new (xs ! j) = take (Suc j) xs @ new # drop (Suc j) xs"
proof (induction xs arbitrary: j)
  case Nil
  then show ?case by simp
next
  case (Cons x xs)
  then show ?case by (cases j) auto
qed

lemma sorted_insert_at:
  fixes f :: "'a \<Rightarrow> nat"
  assumes "sorted (map f xs)" and "j \<le> length xs"
    and "\<forall>k<j. f (xs ! k) \<le> f new"
    and "\<forall>k. j \<le> k \<and> k < length xs \<longrightarrow> f new \<le> f (xs ! k)"
  shows "sorted (map f (take j xs @ new # drop j xs))"
proof -
  have 1: "sorted (map f (take j xs))"
    using assms(1) by (simp add: take_map [symmetric] sorted_wrt_take)
  have 2: "sorted (map f (drop j xs))"
    using assms(1) by (simp add: drop_map [symmetric] sorted_wrt_drop)
  have 3: "\<forall>x\<in>set (take j xs). f x \<le> f new"
  proof
    fix x assume "x \<in> set (take j xs)"
    then obtain k where "k < length (take j xs)" "take j xs ! k = x"
      by (auto simp: in_set_conv_nth)
    with assms(2,3) show "f x \<le> f new" by auto
  qed
  have 4: "\<forall>y\<in>set (drop j xs). f new \<le> f y"
  proof
    fix y assume "y \<in> set (drop j xs)"
    then obtain k where "k < length (drop j xs)" "drop j xs ! k = y"
      by (auto simp: in_set_conv_nth)
    with assms(2,4) show "f new \<le> f y" by (auto simp: )
  qed
  from 3 4 have 5: "\<forall>x\<in>set (take j xs). \<forall>y\<in>set (drop j xs). f x \<le> f y"
    by (meson order_trans)
  show ?thesis
    using 1 2 3 4 5 by (simp add: sorted_append)
qed

lemma index_ok_entry:
  assumes "index_ok b" and "k < length (m_netcode_first_trackitems b)"
    and "m_netcode_first_trackitems b ! k = Some a"
  shows "a \<in> set (m_Track b) \<and> k \<le> GetNetCode b a"
proof -
  from assms(1) have "\<forall>k\<in>set [0..<length (m_netcode_first_trackitems b)].
         case m_netcode_first_trackitems b ! k of
           None \<Rightarrow> True
         | Some a \<Rightarrow> a \<in> set (m_Track b) \<and> k \<le> GetNetCode b a"
    unfolding index_ok_def by (rule conjunct1)
  moreover from assms(2) have "k \<in> set [0..<length (m_netcode_first_trackitems b)]" by simp
  ultimately have "case m_netcode_first_trackitems b ! k of
           None \<Rightarrow> True
         | Some a \<Rightarrow> a \<in> set (m_Track b) \<and> k \<le> GetNetCode b a"
    by (rule bspec)
  with assms(3) show ?thesis by simp
qed

lemma index_ok_item:
  assumes "index_ok b" and "a \<in> set (m_Track b)"
  shows "GetNetCode b a < length (m_netcode_first_trackitems b)
         \<and> m_netcode_first_trackitems b ! GetNetCode b a \<noteq> None"
  using assms by (simp add: index_ok_def)

lemma GetNetCode_heap: "heap b' = heap b \<Longrightarrow> GetNetCode b' = GetNetCode b"
  by (rule ext) (simp add: GetNetCode_def)

lemma Back_m_Track: "m_Track b' = m_Track b \<Longrightarrow> Back b' = Back b"
  by (rule ext) (auto simp: Back_def split: option.splits nat.splits)

lemma GetAndSync_GetNetCode [simp]: "GetNetCode (snd (GetAndSync b n)) = GetNetCode b"
  by (rule GetNetCode_heap) simp

lemma GetAndSync_Back [simp]: "Back (snd (GetAndSync b n)) = Back b"
  by (rule Back_m_Track) simp

lemma walk_post_SomeD:
  assumes "walk_post b n i (Some r)" and "i < length (m_Track b)"
  shows "\<exists>j<length (m_Track b). r = m_Track b ! j \<and> n \<le> GetNetCode b r
           \<and> (j = 0 \<longrightarrow> GetNetCode b r = n)
           \<and> (0 < j \<longrightarrow> GetNetCode b (m_Track b ! (j - 1)) < n)"
proof -
  from assms(1) obtain j where "j \<le> i" and j: "r = m_Track b ! j \<and> n \<le> GetNetCode b r
           \<and> (j = 0 \<longrightarrow> GetNetCode b r = n)
           \<and> (0 < j \<longrightarrow> GetNetCode b (m_Track b ! (j - 1)) < n)"
    by (auto simp: walk_post_def)
  with assms(2) have "j < length (m_Track b)" by simp
  with j show ?thesis by blast
qed

lemma index_ok_GetAndSync:
  assumes "index_ok b" and "distinct (m_Track b)"
  shows "index_ok (snd (GetAndSync b n))"
proof (cases "fst (GetAndSync b n)")
  case None
  then show ?thesis using assms(1) by (simp add: GetAndSync_None)
next
  case (Some r)
  from GetAndSync_Some [OF Some] obtain a where n: "n < length (m_netcode_first_trackitems b)"
    and a: "m_netcode_first_trackitems b ! n = Some a" and w: "sync_walk b n a = Some r"
    and upd: "m_netcode_first_trackitems (snd (GetAndSync b n))
                = (m_netcode_first_trackitems b)[n := Some r]"
    by blast
  from index_ok_entry [OF assms(1) n a] have ain: "a \<in> set (m_Track b)" "n \<le> GetNetCode b a"
    by simp_all
  from sync_walk_entry [OF assms(2) ain] w obtain i where "i < length (m_Track b)"
    "walk_post b n i (Some r)" by auto
  from walk_post_SomeD [OF this(2,1)] have r: "r \<in> set (m_Track b)" "n \<le> GetNetCode b r"
    by auto
  have 1: "\<forall>k\<in>set [0..<length (m_netcode_first_trackitems (snd (GetAndSync b n)))].
            case m_netcode_first_trackitems (snd (GetAndSync b n)) ! k of
              None \<Rightarrow> True
            | Some a \<Rightarrow> a \<in> set (m_Track (snd (GetAndSync b n)))
                         \<and> k \<le> GetNetCode (snd (GetAndSync b n)) a"
  proof
    fix k assume "k \<in> set [0..<length (m_netcode_first_trackitems (snd (GetAndSync b n)))]"
    then have k: "k < length (m_netcode_first_trackitems b)" by (simp add: upd)
    show "case m_netcode_first_trackitems (snd (GetAndSync b n)) ! k of
            None \<Rightarrow> True
          | Some a \<Rightarrow> a \<in> set (m_Track (snd (GetAndSync b n)))
                       \<and> k \<le> GetNetCode (snd (GetAndSync b n)) a"
    proof (cases "k = n")
      case True
      with r n show ?thesis by (simp add: upd)
    next
      case False
      then show ?thesis
        using index_ok_entry [OF assms(1) k] by (auto simp: upd split: option.splits)
    qed
  qed
  have 2: "\<forall>x\<in>set (m_Track (snd (GetAndSync b n))).
            GetNetCode (snd (GetAndSync b n)) x
              < length (m_netcode_first_trackitems (snd (GetAndSync b n)))
            \<and> m_netcode_first_trackitems (snd (GetAndSync b n))
                ! GetNetCode (snd (GetAndSync b n)) x \<noteq> None"
  proof
    fix x assume "x \<in> set (m_Track (snd (GetAndSync b n)))"
    then have x: "x \<in> set (m_Track b)" by simp
    from index_ok_item [OF assms(1) x]
    show "GetNetCode (snd (GetAndSync b n)) x
            < length (m_netcode_first_trackitems (snd (GetAndSync b n)))
          \<and> m_netcode_first_trackitems (snd (GetAndSync b n))
              ! GetNetCode (snd (GetAndSync b n)) x \<noteq> None"
      by (cases "GetNetCode b x = n") (simp_all add: upd n)
  qed
  from 1 2 show ?thesis
    unfolding index_ok_def by (rule conjI)
qed


lemma GetAndSync_None_empty_net:
  assumes "fst (GetAndSync b k) = None" and "index_ok b" and "distinct (m_Track b)"
    and "m_Track b \<noteq> []" and "GetNetCode b (m_Track b ! 0) \<le> k"
  shows "\<forall>x\<in>set (m_Track b). GetNetCode b x \<noteq> k"
proof
  fix x assume x: "x \<in> set (m_Track b)"
  show "GetNetCode b x \<noteq> k"
  proof
    assume eq: "GetNetCode b x = k"
    from index_ok_item [OF assms(2) x] eq have k: "k < length (m_netcode_first_trackitems b)"
      and nn: "m_netcode_first_trackitems b ! k \<noteq> None" by simp_all
    from GetAndSync_NoneD [OF assms(1)] k nn obtain a
      where a: "m_netcode_first_trackitems b ! k = Some a" and w: "sync_walk b k a = None"
      by auto
    from index_ok_entry [OF assms(2) k a] have "a \<in> set (m_Track b)" "k \<le> GetNetCode b a"
      by simp_all
    from sync_walk_entry [OF assms(3) this] w have "k < GetNetCode b (m_Track b ! 0)"
      by (auto simp: walk_post_def)
    with assms(5) show False by simp
  qed
qed

lemma GetAndSync_Some_pos:
  assumes "fst (GetAndSync b k) = Some r" and "index_ok b" and "distinct (m_Track b)"
  shows "\<exists>j<length (m_Track b). r = m_Track b ! j \<and> k \<le> GetNetCode b r
           \<and> (j = 0 \<longrightarrow> GetNetCode b r = k)
           \<and> (0 < j \<longrightarrow> GetNetCode b (m_Track b ! (j - 1)) < k)"
proof -
  from GetAndSync_Some [OF assms(1)] obtain a where k: "k < length (m_netcode_first_trackitems b)"
    and a: "m_netcode_first_trackitems b ! k = Some a" and w: "sync_walk b k a = Some r"
    by blast
  from index_ok_entry [OF assms(2) k a] have "a \<in> set (m_Track b)" "k \<le> GetNetCode b a"
    by simp_all
  from sync_walk_entry [OF assms(3) this] w obtain i where "i < length (m_Track b)"
    "walk_post b k i (Some r)" by auto
  from walk_post_SomeD [OF this(2,1)] show ?thesis .
qed

lemma next_net_scan_result:
  assumes "m_Track b = xs" and "GetNetCode b = nc" and "distinct xs" and "sorted (map nc xs)"
    and "index_ok b" and "xs \<noteq> []" and "nc (xs ! 0) \<le> n" and "n < k"
    and "\<forall>a\<in>set xs. nc a < n \<or> k \<le> nc a"
  shows "scan_post xs nc n (fst (next_net_scan b k)) \<and> m_Track (snd (next_net_scan b k)) = xs"
  using assms
proof (induction b k rule: next_net_scan.induct)
  case (1 b k)
  note xs = \<open>m_Track b = xs\<close> and nc = \<open>GetNetCode b = nc\<close>
  show ?case
  proof (cases "k < length (m_netcode_first_trackitems b)")
    case False
    then have res: "next_net_scan b k = (None, b)"
      by (subst next_net_scan.simps) simp
    have "\<forall>a\<in>set xs. nc a < n"
    proof
      fix a assume a: "a \<in> set xs"
      with index_ok_item [OF "1.prems"(5)] xs nc have "nc a < length (m_netcode_first_trackitems b)"
        by auto
      with False have "nc a < k" by simp
      with "1.prems"(9) a show "nc a < n" by auto
    qed
    with res xs show ?thesis by (simp add: scan_post_def)
  next
    case True
    show ?thesis
    proof (cases "fst (GetAndSync b k)")
      case None
      then have same: "snd (GetAndSync b k) = b" by (rule GetAndSync_None)
      have res: "next_net_scan b k = next_net_scan b (Suc k)"
        by (subst next_net_scan.simps) (simp add: True None same)
      have "nc (xs ! 0) \<le> k" using "1.prems"(7,8) by simp
      with GetAndSync_None_empty_net [OF None "1.prems"(5)] "1.prems"(3,6) xs nc
      have "\<forall>x\<in>set xs. nc x \<noteq> k" by simp
      with "1.prems"(9) have "\<forall>a\<in>set xs. nc a < n \<or> Suc k \<le> nc a"
        by (metis Suc_leI le_neq_implies_less)
      moreover have "n < Suc k" using "1.prems"(8) by simp
      ultimately have "scan_post xs nc n (fst (next_net_scan (snd (GetAndSync b k)) (Suc k)))
          \<and> m_Track (snd (next_net_scan (snd (GetAndSync b k)) (Suc k))) = xs"
        using "1.prems" by (intro "1.IH"(1) [OF True None]) (simp_all add: same)
      then show ?thesis by (simp add: res same)
    next
      case (Some r)
      from GetAndSync_Some_pos [OF Some "1.prems"(5)] "1.prems"(3) xs nc
      obtain j where j: "j < length xs" "r = xs ! j" "k \<le> nc r" "j = 0 \<longrightarrow> nc r = k"
        "0 < j \<longrightarrow> nc (xs ! (j - 1)) < k"
        by auto
      have jpos: "0 < j"
      proof (rule ccontr)
        assume "\<not> 0 < j"
        with j(2,4) have "nc (xs ! 0) = k" by simp
        with "1.prems"(7,8) show False by simp
      qed
      have bk: "Back b r = Some (xs ! (j - 1))"
        using Back_nth [of b j] "1.prems"(3) xs j(1,2) jpos by simp
      have res: "next_net_scan b k = (Some (xs ! (j - 1)), snd (GetAndSync b k))"
        by (subst next_net_scan.simps) (simp add: True Some bk)
      have lt: "nc (xs ! (j - 1)) < k" using j(5) jpos by simp
      have "xs ! (j - 1) \<in> set xs" using j(1) by simp
      with "1.prems"(9) lt have "nc (xs ! (j - 1)) < n" by auto
      moreover have "n < nc (xs ! Suc (j - 1))" using jpos j(2,3) "1.prems"(8) by simp
      moreover have "Suc (j - 1) < length xs" using jpos j(1) by simp
      ultimately have "scan_post xs nc n (Some (xs ! (j - 1)))"
        unfolding scan_post_def by (simp only: option.case) (rule exI [of _ "j - 1"], simp)
      then show ?thesis by (simp add: res xs)
    qed
  qed
qed


lemma insert_post_before:
  assumes "sorted (map (GetNetCode b) (m_Track b))" and "distinct (m_Track b)"
    and "j < length (m_Track b)" and "n \<le> GetNetCode b (m_Track b ! j)"
    and "0 < j \<longrightarrow> GetNetCode b (m_Track b ! (j - 1)) < n"
    and "GetNetCode b new = n"
  shows "insert_post b n new (m_Track b ! j)"
proof -
  let ?xs = "m_Track b" and ?nc = "GetNetCode b"
  have mono: "\<And>p q. p \<le> q \<Longrightarrow> q < length ?xs \<Longrightarrow> ?nc (?xs ! p) \<le> ?nc (?xs ! q)"
    using assms(1) by (simp add: sorted_iff_nth_mono)
  have lo: "\<forall>k<j. ?nc (?xs ! k) \<le> ?nc new"
  proof (intro allI impI)
    fix k assume k: "k < j"
    then have "k \<le> j - 1" "j - 1 < length ?xs" "0 < j" using assms(3) by simp_all
    with mono [of k "j - 1"] assms(5,6) show "?nc (?xs ! k) \<le> ?nc new" by simp
  qed
  have hi: "\<forall>k. j \<le> k \<and> k < length ?xs \<longrightarrow> ?nc new \<le> ?nc (?xs ! k)"
    using mono [of j] assms(4,6) by (auto intro: order_trans)
  have "sorted (map ?nc (take j ?xs @ new # drop j ?xs))"
    using assms(1) _ lo hi by (rule sorted_insert_at) (use assms(3) in simp)
  then have srt: "sorted (map ?nc (insert_before ?xs new (?xs ! j)))"
    by (simp only: insert_before_nth [OF assms(2,3)])
  have bk: "case Back b (?xs ! j) of None \<Rightarrow> True | Some p \<Rightarrow> ?nc p < n"
    using Back_nth [OF assms(2,3)] assms(5) by simp
  show ?thesis
    unfolding insert_post_def using srt bk assms(3,4) by simp
qed

lemma insert_post_after:
  assumes "sorted (map (GetNetCode b) (m_Track b))" and "distinct (m_Track b)"
    and "j < length (m_Track b)" and "GetNetCode b (m_Track b ! j) < n"
    and "Suc j < length (m_Track b) \<longrightarrow> n \<le> GetNetCode b (m_Track b ! Suc j)"
    and "GetNetCode b new = n"
  shows "insert_post b n new (m_Track b ! j)"
proof -
  let ?xs = "m_Track b" and ?nc = "GetNetCode b"
  have mono: "\<And>p q. p \<le> q \<Longrightarrow> q < length ?xs \<Longrightarrow> ?nc (?xs ! p) \<le> ?nc (?xs ! q)"
    using assms(1) by (simp add: sorted_iff_nth_mono)
  have lo: "\<forall>k<Suc j. ?nc (?xs ! k) \<le> ?nc new"
  proof (intro allI impI)
    fix k assume k: "k < Suc j"
    then have "k \<le> j" by simp
    with mono [of k j] assms(3,4,6) show "?nc (?xs ! k) \<le> ?nc new" by simp
  qed
  have hi: "\<forall>k. Suc j \<le> k \<and> k < length ?xs \<longrightarrow> ?nc new \<le> ?nc (?xs ! k)"
  proof (intro allI impI)
    fix k assume k: "Suc j \<le> k \<and> k < length ?xs"
    then have "Suc j < length ?xs" by simp
    with assms(5,6) have "?nc new \<le> ?nc (?xs ! Suc j)" by simp
    also have "\<dots> \<le> ?nc (?xs ! k)" using mono [of "Suc j" k] k by simp
    finally show "?nc new \<le> ?nc (?xs ! k)" .
  qed
  have "sorted (map ?nc (take (Suc j) ?xs @ new # drop (Suc j) ?xs))"
    using assms(1) _ lo hi by (rule sorted_insert_at) (use assms(3) in simp)
  then have srt: "sorted (map ?nc (insert_after ?xs new (?xs ! j)))"
    by (simp only: insert_after_nth [OF assms(2,3)])
  have bk: "case Back b (?xs ! j) of None \<Rightarrow> True | Some p \<Rightarrow> ?nc p < n"
  proof (cases j)
    case 0
    then show ?thesis using Back_nth [OF assms(2,3)] by simp
  next
    case (Suc i)
    with mono [of i j] assms(3,4) have "?nc (?xs ! i) < n" by simp
    with Suc show ?thesis using Back_nth [OF assms(2,3)] by simp
  qed
  show ?thesis
    unfolding insert_post_def using srt bk assms(3,4) by simp
qed

lemma GetBestInsertPoint_empty:
  "m_Track b = [] \<Longrightarrow> fst (GetBestInsertPoint b n) = None"
  by (simp add: GetBestInsertPoint_def GetFirstItem_def)

lemma GetBestInsertPoint_head:
  assumes "m_Track b = head # rest" and "n = 0 \<or> n < GetNetCode b head"
  shows "fst (GetBestInsertPoint b n) = Some head"
  using assms by (auto simp: GetBestInsertPoint_def GetFirstItem_def)

lemma GetBestInsertPoint_found:
  assumes "m_Track b = head # rest" and "n \<noteq> 0" and "GetNetCode b head \<le> n"
    and "n < length (m_netcode_first_trackitems b)" and "fst (GetAndSync b n) = Some r"
  shows "fst (GetBestInsertPoint b n) = Some r"
  using assms by (simp add: GetBestInsertPoint_def GetFirstItem_def case_prod_beta)

lemma GetBestInsertPoint_scan:
  assumes "m_Track b = head # rest" and "n \<noteq> 0" and "GetNetCode b head \<le> n"
    and "n < length (m_netcode_first_trackitems b) \<longrightarrow> fst (GetAndSync b n) = None"
    and "m_Track (snd (next_net_scan b (n + 1))) = m_Track b"
  shows "fst (GetBestInsertPoint b n)
         = (case fst (next_net_scan b (n + 1)) of
              Some r \<Rightarrow> Some r
            | None \<Rightarrow> Some (last (m_Track b)))"
proof -
  have b1: "(if n < length (m_netcode_first_trackitems b) then GetAndSync b n else (None, b)) = (None, b)"
    using assms(4) GetAndSync_None [of b n] by (auto simp: prod_eq_iff)
  show ?thesis
    using assms(1,2,3,5)
    by (simp add: GetBestInsertPoint_def GetFirstItem_def GetLast_def b1 case_prod_beta
        split: option.splits prod.splits)
qed

text \<open>
  C2 (as amended). For every board whose track list is sorted by netcode and whose index is
  consistent, and every netcode, \<open>GetBestInsertPoint\<close> returns null only for an empty
  list, and otherwise an item of the list next to the insertion position: its predecessor,
  if any, has a strictly smaller netcode, and splicing a new item of that netcode
  immediately before it (when its netcode is not smaller than the new one) or immediately
  after it (otherwise) leaves the list in non-decreasing netcode order.
\<close>

theorem GetBestInsertPoint_neighbour:
  assumes "sorted (map (GetNetCode b) (m_Track b))" and "distinct (m_Track b)"
    and "index_ok b" and "GetNetCode b new = n"
  shows "case fst (GetBestInsertPoint b n) of
           None \<Rightarrow> m_Track b = []
         | Some r \<Rightarrow> insert_post b n new r"
proof (cases "m_Track b")
  case Nil
  then show ?thesis by (simp add: GetBestInsertPoint_empty)
next
  case (Cons head rest)
  let ?xs = "m_Track b" and ?nc = "GetNetCode b"
  have ne: "?xs \<noteq> []" and hd: "?xs ! 0 = head" and len: "0 < length ?xs"
    using Cons by simp_all
  show ?thesis
  proof (cases "n = 0 \<or> n < ?nc head")
    case True
    have "insert_post b n new (?xs ! 0)"
      using assms(1,2) len _ _ assms(4) by (rule insert_post_before) (use True hd in auto)
    with GetBestInsertPoint_head [OF Cons True] hd show ?thesis by simp
  next
    case False
    then have n0: "n \<noteq> 0" and hn: "?nc head \<le> n" by simp_all
    show ?thesis
    proof (cases "n < length (m_netcode_first_trackitems b) \<and> fst (GetAndSync b n) \<noteq> None")
      case True
      then obtain r where r: "fst (GetAndSync b n) = Some r" by auto
      from GetAndSync_Some_pos [OF r assms(3,2)] obtain j where j: "j < length ?xs"
        "r = ?xs ! j" "n \<le> ?nc r" "0 < j \<longrightarrow> ?nc (?xs ! (j - 1)) < n"
        by blast
      have "insert_post b n new (?xs ! j)"
        using assms(1,2) j(1) _ j(4) assms(4) by (rule insert_post_before) (use j in simp)
      with GetBestInsertPoint_found [OF Cons n0 hn _ r] True j(2) show ?thesis by simp
    next
      case False
      then have none: "n < length (m_netcode_first_trackitems b) \<longrightarrow> fst (GetAndSync b n) = None"
        by simp
      have empty: "\<forall>a\<in>set ?xs. ?nc a \<noteq> n"
      proof (cases "n < length (m_netcode_first_trackitems b)")
        case True
        with none have "fst (GetAndSync b n) = None" by simp
        from GetAndSync_None_empty_net [OF this assms(3,2) ne] hn hd show ?thesis by simp
      next
        case False
        with index_ok_item [OF assms(3)] show ?thesis by fastforce
      qed
      then have gap: "\<forall>a\<in>set ?xs. ?nc a < n \<or> n + 1 \<le> ?nc a"
        by (metis Suc_eq_plus1 Suc_leI le_neq_implies_less not_le_imp_less)
      have scan: "scan_post ?xs ?nc n (fst (next_net_scan b (n + 1)))
                  \<and> m_Track (snd (next_net_scan b (n + 1))) = ?xs"
        using refl refl assms(2,1,3) ne _ _ gap by (rule next_net_scan_result) (use hn hd in simp_all)
      then have same: "m_Track (snd (next_net_scan b (n + 1))) = ?xs" by simp
      note res = GetBestInsertPoint_scan [OF Cons n0 hn none same]
      show ?thesis
      proof (cases "fst (next_net_scan b (n + 1))")
        case None
        with scan have all: "\<forall>a\<in>set ?xs. ?nc a < n" by (simp add: scan_post_def)
        have l: "last ?xs = ?xs ! (length ?xs - 1)" using ne by (rule last_conv_nth)
        have "insert_post b n new (?xs ! (length ?xs - 1))"
          using assms(1,2) _ _ _ assms(4) by (rule insert_post_after) (use all len in simp_all)
        with res None l show ?thesis by simp
      next
        case (Some p)
        with scan obtain j where j: "p = ?xs ! j" "Suc j < length ?xs" "?nc p < n"
          "n < ?nc (?xs ! Suc j)"
          by (auto simp: scan_post_def)
        have "insert_post b n new (?xs ! j)"
          using assms(1,2) _ _ _ assms(4) by (rule insert_post_after) (use j in simp_all)
        with res Some j(1) show ?thesis by simp
      qed
    qed
  qed
qed

theorem GetBestInsertPoint_neighbour_witness:
  "index_ok board_gap
   \<and> fst (GetBestInsertPoint board_gap 2) = Some 1
   \<and> sorted (map (GetNetCode board_gap) (insert_after (m_Track board_gap) 3 1))"
proof -
  have h1: "sorted (map (GetNetCode board_gap) (m_Track board_gap))"
    by code_simp
  have h2: "distinct (m_Track board_gap)"
    by code_simp
  have h3: "index_ok board_gap"
    by code_simp
  have h4: "GetNetCode board_gap 3 = 2"
    by code_simp
  have r: "fst (GetBestInsertPoint board_gap 2) = Some 1"
    by code_simp
  have lt: "\<not> 2 \<le> GetNetCode board_gap 1"
    by code_simp
  from GetBestInsertPoint_neighbour [OF h1 h2 h3 h4] r
  have "insert_post board_gap 2 3 1" by simp
  with lt have "sorted (map (GetNetCode board_gap) (insert_after (m_Track board_gap) 3 1))"
    by (simp add: insert_post_def)
  with h3 r show ?thesis by simp
qed

text \<open>
  C2 (as stated) fails when the netcode has no item yet: for nets 1 and 3 and a new item
  of net 2 the function returns the last item of net 1, and splicing immediately before
  that item puts net 2 in front of net 1.
\<close>

theorem GetBestInsertPoint_splice_before_counterexample:
  "sorted (map (GetNetCode board_gap) (m_Track board_gap))
   \<and> m_netcode_first_trackitems (SortTracks (board_gap\<lparr>m_netcode_first_trackitems := []\<rparr>))
       = m_netcode_first_trackitems board_gap
   \<and> GetNetCode board_gap 3 = 2
   \<and> fst (GetBestInsertPoint board_gap 2) = Some 1
   \<and> \<not> sorted (map (GetNetCode board_gap) (insert_before (m_Track board_gap) 3 1))"
  by code_simp

section \<open>Properties of the sort\<close>

lemma number_items_notin: "a \<notin> set ts \<Longrightarrow> number_items h ts n a = h a"
  by (induction ts arbitrary: h n) auto

lemma number_items_NetCode: "m_NetCode (number_items h ts n a) = m_NetCode (h a)"
  by (induction ts arbitrary: h n) auto

lemma number_items_Param:
  "distinct ts \<Longrightarrow> i < length ts \<Longrightarrow> m_Param (number_items h ts n (ts ! i)) = n + i"
proof (induction ts arbitrary: h n i)
  case Nil
  then show ?case by simp
next
  case (Cons t ts)
  show ?case
  proof (cases i)
    case 0
    with Cons.prems show ?thesis by (simp add: number_items_notin)
  next
    case (Suc k)
    have "m_Param (number_items (h(t := (h t)\<lparr>m_Param := n\<rparr>)) ts (Suc n) (ts ! k)) = Suc n + k"
      by (rule Cons.IH) (use Cons.prems Suc in auto)
    with Suc show ?thesis by simp
  qed
qed

lemma map_Param_number_items:
  assumes "distinct ts"
  shows "map (\<lambda>a. m_Param (number_items h ts 0 a)) ts = [0..<length ts]"
  by (rule nth_equalityI) (simp_all add: number_items_Param [OF assms])

lemma Insert_m_Track [simp]: "m_Track (Insert b t) = m_Track b"
  by (simp add: Insert_def Let_def split: option.splits)

lemma Insert_heap [simp]: "heap (Insert b t) = heap b"
  by (simp add: Insert_def Let_def split: option.splits)

lemma push_all_m_Track: "m_Track (push_all b ts) = m_Track b @ ts"
  by (induction ts arbitrary: b) (simp_all add: PushBack_def)

lemma push_all_heap: "heap (push_all b ts) = heap b"
  by (induction ts arbitrary: b) (simp_all add: PushBack_def)

lemma SortTracks_m_Track:
  "m_Track (SortTracks b) = sort_key (rule_key (number_items (heap b) (m_Track b) 0)) (m_Track b)"
  by (simp add: SortTracks_def Let_def push_all_m_Track)

lemma SortTracks_heap_NetCode: "m_NetCode (heap (SortTracks b) a) = m_NetCode (heap b a)"
  by (simp add: SortTracks_def Let_def push_all_heap number_items_NetCode)

lemma SortTracks_NetCode: "GetNetCode (SortTracks b) a = GetNetCode b a"
  by (simp add: GetNetCode_def SortTracks_heap_NetCode)

lemma sorted_map_fst:
  fixes f :: "'a \<Rightarrow> nat \<times> nat"
  shows "sorted (map f xs) \<Longrightarrow> sorted (map (\<lambda>x. fst (f x)) xs)"
  by (induction xs) (auto simp: less_eq_prod_def)

lemma sorted_rule_key_same_net:
  assumes "sorted (map (\<lambda>a. m_Param (h a)) xs)" and "\<forall>a\<in>set xs. m_NetCode (h a) = c"
  shows "sorted (map (rule_key h) xs)"
  using assms by (induction xs) (auto simp: rule_key_def less_eq_prod_def)

lemma sort_rule_key_stable:
  assumes "distinct ts"
  shows "filter (\<lambda>a. m_NetCode (h a) = c) (sort_key (rule_key (number_items h ts 0)) ts)
         = filter (\<lambda>a. m_NetCode (h a) = c) ts"
proof -
  let ?h = "number_items h ts 0"
  let ?P = "\<lambda>a. m_NetCode (h a) = c"
  have "sorted (map (\<lambda>a. m_Param (?h a)) ts)"
    by (simp add: map_Param_number_items [OF assms])
  then have "sorted (map (\<lambda>a. m_Param (?h a)) (filter ?P ts))"
    by (rule sorted_filter)
  moreover have "\<forall>a\<in>set (filter ?P ts). m_NetCode (?h a) = c"
    by (simp add: number_items_NetCode)
  ultimately have "sorted (map (rule_key ?h) (filter ?P ts))"
    by (rule sorted_rule_key_same_net)
  then have "sort_key (rule_key ?h) (filter ?P ts) = filter ?P ts"
    by (rule sort_key_id_if_sorted)
  then show ?thesis by (simp add: filter_sort)
qed

text \<open>
  C4. After \<open>SortTracks\<close> the netcodes along the track list are non-decreasing, the
  items of every netcode are in the order they had before, and no netcode has changed. The
  items of a linked list are distinct objects.
\<close>

theorem SortTracks_sorted_stable:
  assumes "distinct (m_Track b)"
  shows "sorted (map (GetNetCode (SortTracks b)) (m_Track (SortTracks b)))
         \<and> (\<forall>c. filter (\<lambda>a. GetNetCode (SortTracks b) a = c) (m_Track (SortTracks b))
                  = filter (\<lambda>a. GetNetCode b a = c) (m_Track b))
         \<and> (\<forall>a. GetNetCode (SortTracks b) a = GetNetCode b a)"
proof (intro conjI allI)
  let ?h = "number_items (heap b) (m_Track b) 0"
  have "sorted (map (rule_key ?h) (sort_key (rule_key ?h) (m_Track b)))"
    by (rule sorted_sort_key)
  then have "sorted (map (\<lambda>a. fst (rule_key ?h a)) (sort_key (rule_key ?h) (m_Track b)))"
    by (rule sorted_map_fst)
  moreover have "(\<lambda>a. fst (rule_key ?h a)) = GetNetCode (SortTracks b)"
    by (rule ext) (simp add: rule_key_def SortTracks_heap_NetCode number_items_NetCode GetNetCode_def)
  ultimately show "sorted (map (GetNetCode (SortTracks b)) (m_Track (SortTracks b)))"
    by (simp add: SortTracks_m_Track)
next
  fix c
  show "filter (\<lambda>a. GetNetCode (SortTracks b) a = c) (m_Track (SortTracks b))
        = filter (\<lambda>a. GetNetCode b a = c) (m_Track b)"
    using sort_rule_key_stable [OF assms, of "heap b" c]
    by (simp add: SortTracks_heap_NetCode SortTracks_m_Track GetNetCode_def)
next
  fix a
  show "GetNetCode (SortTracks b) a = GetNetCode b a"
    by (rule SortTracks_NetCode)
qed

theorem SortTracks_sorted_stable_witness:
  "distinct (m_Track board_unsorted)
   \<and> m_Track (SortTracks board_unsorted) = [2, 4, 1, 3]
   \<and> sorted (map (GetNetCode (SortTracks board_unsorted)) (m_Track (SortTracks board_unsorted)))"
proof -
  have d: "distinct (m_Track board_unsorted)"
    by (simp add: board_unsorted_def)
  have "m_Track (SortTracks board_unsorted) = [2, 4, 1, 3]"
    by code_simp
  moreover have "sorted (map (GetNetCode (SortTracks board_unsorted)) (m_Track (SortTracks board_unsorted)))"
    using SortTracks_sorted_stable [OF d] by (rule conjunct1)
  ultimately show ?thesis using d by (intro conjI)
qed

section \<open>Properties of the short-circuit removal\<close>

lemma same_but_FLAG0_refl: "same_but_FLAG0 h h"
  by (simp add: same_but_FLAG0_def)

lemma same_but_FLAG0_trans:
  "same_but_FLAG0 h h' \<Longrightarrow> same_but_FLAG0 h' h'' \<Longrightarrow> same_but_FLAG0 h h''"
  unfolding same_but_FLAG0_def
proof
  fix a
  assume 1: "\<forall>a. h' a = (h a)\<lparr>FLAG0 := FLAG0 (h' a)\<rparr>" and 2: "\<forall>a. h'' a = (h' a)\<lparr>FLAG0 := FLAG0 (h'' a)\<rparr>"
  from 2 have "h'' a = (h' a)\<lparr>FLAG0 := FLAG0 (h'' a)\<rparr>" ..
  also from 1 have "h' a = (h a)\<lparr>FLAG0 := FLAG0 (h' a)\<rparr>" ..
  finally show "h'' a = (h a)\<lparr>FLAG0 := FLAG0 (h'' a)\<rparr>" by simp
qed

lemma same_but_FLAG0_upd: "same_but_FLAG0 h (h(s := (h s)\<lparr>FLAG0 := f\<rparr>))"
  by (simp add: same_but_FLAG0_def)

lemma same_but_FLAG0_fields:
  assumes "same_but_FLAG0 h h'"
  shows "m_NetCode (h' a) = m_NetCode (h a)" and "m_Type (h' a) = m_Type (h a)"
    and "m_PadsConnected (h' a) = m_PadsConnected (h a)"
    and "m_TracksConnected (h' a) = m_TracksConnected (h a)"
    and "m_ThermalCode (h' a) = m_ThermalCode (h a)"
    and "exempt (h' a) = exempt (h a)"
proof -
  from assms have eq: "h' a = (h a)\<lparr>FLAG0 := FLAG0 (h' a)\<rparr>" by (simp add: same_but_FLAG0_def)
  show "m_NetCode (h' a) = m_NetCode (h a)" by (subst eq) simp
  show "m_Type (h' a) = m_Type (h a)" by (subst eq) simp
  show "m_PadsConnected (h' a) = m_PadsConnected (h a)" by (subst eq) simp
  show "m_TracksConnected (h' a) = m_TracksConnected (h a)" by (subst eq) simp
  show "m_ThermalCode (h' a) = m_ThermalCode (h a)" by (subst eq) simp
  show "exempt (h' a) = exempt (h a)" by (subst eq) (simp add: exempt_def)
qed

lemma pads_loop_eq:
  "pads_loop h s ps =
     (if \<exists>p\<in>set ps. pad_NetCode p \<noteq> m_NetCode (h s)
      then h(s := (h s)\<lparr>FLAG0 := True\<rparr>) else h)"
  by (induction ps arbitrary: h) auto

lemma tracks_loop_eq:
  "tracks_loop h s ts =
     (if \<exists>t\<in>set ts. m_NetCode (h t) \<noteq> m_NetCode (h s) \<and> \<not> FLAG0 (h t)
      then h(s := (h s)\<lparr>FLAG0 := True\<rparr>) else h)"
proof (induction ts arbitrary: h)
  case Nil
  then show ?case by simp
next
  case (Cons t ts)
  show ?case
  proof (cases "m_NetCode (h s) \<noteq> m_NetCode (h t) \<and> \<not> FLAG0 (h t)")
    case True
    let ?h' = "h(s := (h s)\<lparr>FLAG0 := True\<rparr>)"
    have "tracks_loop h s (t # ts) = tracks_loop ?h' s ts" using True by simp
    also have "\<dots> = ?h'" by (subst Cons.IH) auto
    finally show ?thesis using True by auto
  next
    case False
    then have "tracks_loop h s (t # ts) = tracks_loop h s ts" by auto
    with False show ?thesis by (subst (asm) Cons.IH) auto
  qed
qed

lemma flag_segment_eq:
  "flag_segment h s = h(s := (h s)\<lparr>FLAG0 := flag_value h h s\<rparr>)"
proof -
  let ?h1 = "h(s := (h s)\<lparr>FLAG0 := False\<rparr>)"
  show ?thesis
  proof (cases "exempt (h s)")
    case True
    then have "exempt (?h1 s)" by (simp add: exempt_def)
    with True show ?thesis by (simp add: flag_segment_def Let_def flag_value_def)
  next
    case False
    then have ne: "\<not> exempt (?h1 s)" by (simp add: exempt_def)
    let ?P = "\<exists>p\<in>set (m_PadsConnected (h s)). pad_NetCode p \<noteq> m_NetCode (h s)"
    let ?T = "\<exists>t\<in>set (m_TracksConnected (h s)). m_NetCode (h t) \<noteq> m_NetCode (h s) \<and> \<not> FLAG0 (h t)"
    let ?h2 = "pads_loop ?h1 s (m_PadsConnected (?h1 s))"
    have h2: "?h2 = h(s := (h s)\<lparr>FLAG0 := ?P\<rparr>)"
      by (simp add: pads_loop_eq)
    have T2: "(\<exists>t\<in>set (m_TracksConnected (h s)). m_NetCode (?h2 t) \<noteq> m_NetCode (?h2 s) \<and> \<not> FLAG0 (?h2 t)) = ?T"
      unfolding h2 by (intro bex_cong refl) auto
    have "flag_segment h s = tracks_loop ?h2 s (m_TracksConnected (h s))"
      using ne by (simp add: flag_segment_def Let_def)
    also have "\<dots> = (if ?T then ?h2(s := (?h2 s)\<lparr>FLAG0 := True\<rparr>) else ?h2)"
      by (subst tracks_loop_eq) (simp only: T2)
    also have "\<dots> = h(s := (h s)\<lparr>FLAG0 := ?P \<or> ?T\<rparr>)"
    proof (cases ?T)
      case True
      then show ?thesis unfolding h2 by simp
    next
      case False
      then have eq: "(?P \<or> ?T) = ?P" by blast
      from False show ?thesis unfolding h2 by (simp only: if_False simp_thms)
    qed
    finally show ?thesis using False by (simp add: flag_value_def)
  qed
qed

lemma flag_sweep_append: "flag_sweep h (xs @ ys) = flag_sweep (flag_sweep h xs) ys"
  by (induction xs arbitrary: h) simp_all

lemma flag_sweep_notin: "a \<notin> set xs \<Longrightarrow> flag_sweep h xs a = h a"
  by (induction xs arbitrary: h) (auto simp: flag_segment_eq)

lemma flag_sweep_same: "same_but_FLAG0 h (flag_sweep h xs)"
proof (induction xs arbitrary: h)
  case Nil
  show ?case by (simp add: same_but_FLAG0_refl)
next
  case (Cons x xs)
  have "same_but_FLAG0 h (flag_segment h x)"
    unfolding flag_segment_eq by (rule same_but_FLAG0_upd)
  then show ?case using Cons.IH [of "flag_segment h x"]
    by (simp add: same_but_FLAG0_trans)
qed

lemma flag_value_same:
  assumes "same_but_FLAG0 h h'"
  shows "flag_value h' hv s = flag_value h hv s"
  unfolding flag_value_def
  by (simp add: same_but_FLAG0_fields [OF assms])

lemma flag_sweep_nth:
  assumes "distinct xs" and "i < length xs"
  shows "FLAG0 (flag_sweep h xs (xs ! i)) = flag_value h (flag_sweep h (take i xs)) (xs ! i)"
proof -
  let ?s = "xs ! i" and ?hi = "flag_sweep h (take i xs)"
  have split: "xs = take i xs @ ?s # drop (Suc i) xs"
    using assms(2) by (simp add: id_take_nth_drop)
  have notin: "?s \<notin> set (drop (Suc i) xs)"
    using assms by (metis distinct_append distinct.simps(2) split not_distinct_conv_prefix
        append_take_drop_id id_take_nth_drop)
  have "flag_sweep h xs ?s = flag_sweep (flag_segment ?hi ?s) (drop (Suc i) xs) ?s"
    by (subst split) (simp add: flag_sweep_append)
  also have "\<dots> = flag_segment ?hi ?s ?s"
    using notin by (rule flag_sweep_notin)
  finally have "FLAG0 (flag_sweep h xs ?s) = flag_value ?hi ?hi ?s"
    by (simp add: flag_segment_eq)
  also have "\<dots> = flag_value h ?hi ?s"
    by (rule flag_value_same) (rule flag_sweep_same)
  finally show ?thesis .
qed

text \<open>
  C6 (as amended). In the forward sweep over a list of distinct items, the item at position
  \<open>i\<close> ends up flagged exactly when it is not exempt and either one of its connected
  pads has another netcode or one of its connected items has another netcode and is not
  flagged when the sweep reaches position \<open>i\<close>. A connected item that is already flagged
  does not cause flagging.
\<close>

theorem flag_sweep_rule:
  assumes "distinct xs" and "i < length xs"
  shows "FLAG0 (flag_sweep h xs (xs ! i)) = flag_value h (flag_sweep h (take i xs)) (xs ! i)"
  using assms by (rule flag_sweep_nth)

theorem flag_sweep_rule_witness:
  "distinct (m_Track board_short)
   \<and> FLAG0 (flag_sweep (heap board_short) (take 1 (m_Track board_short)) 1)
   \<and> flag_value (heap board_short)
        (flag_sweep (heap board_short) (take 1 (m_Track board_short))) (m_Track board_short ! 1)
      = False
   \<and> \<not> FLAG0 (flag_sweep (heap board_short) (m_Track board_short) (m_Track board_short ! 1))"
proof -
  have d: "distinct (m_Track board_short)"
    by code_simp
  have l: "1 < length (m_Track board_short)"
    by code_simp
  have f1: "FLAG0 (flag_sweep (heap board_short) (take 1 (m_Track board_short)) 1)"
    by code_simp
  have v: "flag_value (heap board_short)
        (flag_sweep (heap board_short) (take 1 (m_Track board_short))) (m_Track board_short ! 1)
      = False"
    by code_simp
  from flag_sweep_rule [OF d l, of "heap board_short"] v
  have "\<not> FLAG0 (flag_sweep (heap board_short) (m_Track board_short) (m_Track board_short ! 1))"
    by simp
  with d f1 v show ?thesis by simp
qed

text \<open>
  C6 (as stated) fails: the second trace touches the first, which is flagged when the
  sweep reaches the second, and the second is neither flagged nor removed.
\<close>

theorem flag_sweep_flagged_neighbour_counterexample:
  "1 \<in> set (m_TracksConnected (heap board_short 2))
   \<and> FLAG0 (flag_sweep (heap board_short) [1] 1)
   \<and> \<not> FLAG0 (flag_sweep (heap board_short) (m_Track board_short) 2)
   \<and> m_Track (snd (removeBadTrackSegments id board_short)) = [2]"
  by code_simp

lemma remove_flagged_heap: "heap (fst (remove_flagged b ys m)) = heap b"
  by (induction ys arbitrary: b m) (simp_all add: Remove_item_def)





section \<open>Properties of the via cleaning\<close>

lemma Remove_item_heap [simp]: "heap (Remove_item b a) = heap b"
  by (simp add: Remove_item_def)

lemma Remove_item_m_Track [simp]: "m_Track (Remove_item b a) = remove1 a (m_Track b)"
  by (simp add: Remove_item_def)

lemma duplicates_loop_heap [simp]: "heap (snd (duplicates_loop b v ys m)) = heap b"
  by (induction ys arbitrary: b m) simp_all


lemma duplicates_loop_keeps:
  "a \<in> set (m_Track b) \<Longrightarrow> a \<notin> set ys \<Longrightarrow> a \<in> set (m_Track (snd (duplicates_loop b v ys m)))"
  by (induction ys arbitrary: b m) auto

lemma items_behind_notin: "a \<notin> set (items_behind xs a) \<or> \<not> distinct xs"
  by (induction xs) auto


















section \<open>Properties of the cleanup run\<close>

text \<open>
  C1. Running the cleanup twice does not always leave the second run without work. With
  only via cleaning enabled, on two through vias that each sit on a through pad, the first
  run unlinks the first via and stops: \<open>clean_vias\<close> asks the unlinked via for its
  successor, where every other loop of the cleaner reads the successor before it unlinks.
  The second run unlinks the second via and reports a modification. This holds whatever the
  collaborators that this run does not reach do.
\<close>

theorem CleanupBoard_second_run_changes:
  "m_Track (snd (CleanupBoard (collaborators_with pads_under_vias {0, 1} sct isnull gt zone lp)
                   False True False False board_vias_on_pads)) = [2]
   \<and> fst (CleanupBoard (collaborators_with pads_under_vias {0, 1} sct isnull gt zone lp)
            False True False False
            (snd (CleanupBoard (collaborators_with pads_under_vias {0, 1} sct isnull gt zone lp)
                    False True False False board_vias_on_pads)))
   \<and> m_Track (snd (CleanupBoard (collaborators_with pads_under_vias {0, 1} sct isnull gt zone lp)
                      False True False False
                      (snd (CleanupBoard (collaborators_with pads_under_vias {0, 1} sct isnull gt zone lp)
                              False True False False board_vias_on_pads)))) = []"
  by (simp add: CleanupBoard_def collaborators_with_def buildTrackConnectionInfo_def
      connect_pads_def update_item_def board_vias_on_pads_def pads_under_vias_def TRACK0_def
      touching_pads_def hit_at_position_def clean_vias_def clean_via_def
      remove_duplicates_of_via_def Let_def)

section \<open>Properties of the via lookup\<close>

text \<open>
  C10. \<open>GetVia\<close> returns null whenever the track is null or the position is neither the
  start nor the end point of the track, whatever the board holds at that position; the net
  scan is run only in the remaining case.
\<close>

theorem GetVia_guard:
  assumes "aTrackSegAt = None
           \<or> (\<exists>t. aTrackSegAt = Some t \<and> m_Start (heap b t) \<noteq> aPosAt \<and> m_End (heap b t) \<noteq> aPosAt)"
  shows "GetVia b aTrackSegAt aPosAt = None"
  using assms by (auto simp: GetVia_def)

theorem GetVia_guard_witness:
  "m_Start (heap board_via_beside_track 1) \<noteq> (5, 0)
   \<and> m_End (heap board_via_beside_track 1) \<noteq> (5, 0)
   \<and> NET_SCAN_GET_VIA_Execute board_via_beside_track 1 (5, 0) = Some 2
   \<and> GetVia board_via_beside_track (Some 1) (5, 0) = None"
proof -
  have h: "m_Start (heap board_via_beside_track 1) \<noteq> (5, 0)
           \<and> m_End (heap board_via_beside_track 1) \<noteq> (5, 0)"
    by (simp add: board_via_beside_track_def TRACK0_def)
  have scan: "NET_SCAN_GET_VIA_Execute board_via_beside_track 1 (5, 0) = Some 2"
    by (simp add: NET_SCAN_GET_VIA_Execute_def NET_SCAN_GET_VIA_ExecuteAt_def GetNetCode_def
        IsOnLayer_def board_via_beside_track_def TRACK0_def)
  from h have "GetVia board_via_beside_track (Some 1) (5, 0) = None"
    by (intro GetVia_guard) simp
  with h scan show ?thesis by simp
qed

end
